theory Spec2Isabelle
  imports Complex_Main
begin

section \<open>The ant simulation: data model\<close>

text \<open>
  The development follows the simulation script (classes \<open>NeuralNetwork\<close>, \<open>Ant\<close>
  and \<open>Simulation\<close>). JavaScript numbers are modelled as real numbers; the one place where
  the script can produce \<open>NaN\<close> (reading a bias beyond the end of a bias vector) is modelled
  by \<open>real option\<close>, \<open>None\<close> standing for \<open>NaN\<close>. A \<open>TypeError\<close> raised by a property
  access on \<open>undefined\<close> is the left summand of a result.

  Objects are shared by reference in the script: \<open>getAntAt\<close> returns the ant object itself,
  \<open>attack\<close> mutates the object it found, and \<open>matedAnts\<close> is a set of objects. During a
  tick the array \<open>this.ants\<close> only grows (the two filters run last), so an ant is identified
  by its index in the array, and a reference is modelled by that index. The fields \<open>id\<close>
  (a random UUID, only printed) and \<open>baseColor\<close> (only drawn) are left out.

  \<open>Math.random()\<close> is modelled by the sequence \<open>rnd\<close> of the values it will return and the
  number \<open>rpos\<close> of values drawn so far; both are kept in the simulation state.
\<close>

datatype cell = Empty | Food | Terrain

datatype stage = Egg | Adult | Old

datatype action = Up | Down | Left | Right | Attack | Eat | Sleep | Mate | Asexual | NoAction

datatype error = TypeError

text \<open>
  \<open>Ant.randomWeights\<close> and \<open>Ant.randomBiases\<close> build three arrays of ten numbers each, and
  the crossover maps \<open>value + noise\<close> over the elements of every layer: a layer of weights is
  an array of numbers, as a layer of biases is. (The comment of the class \<open>NeuralNetwork\<close>
  speaks of a matrix per layer; no constructor of the script builds one.)
\<close>

record NeuralNetwork =
  weights :: "real list list"
  biases :: "real list list"

record params =
  antLifespan :: real
  antDensity :: real
  maxAnts :: real
  maxAntHealth :: real
  foodDensity :: real
  terrainDensity :: real
  eggToAdultTicks :: real
  foodSpawnInterval :: real
  foodSpawnCount :: real
  genomeNoise :: real

text \<open>\<open>nextAction = None\<close> is the JavaScript \<open>undefined\<close>; \<open>Some NoAction\<close> is the string "none".\<close>

record ant =
  pos_x :: int
  pos_y :: int
  age :: nat
  health :: real
  stage :: stage
  stageAge :: nat
  neuralNetwork :: NeuralNetwork
  nextAction :: "action option"

record simulation =
  ants :: "ant list"
  grid :: "int \<times> int \<Rightarrow> cell option"
  rnd :: "nat \<Rightarrow> real"
  rpos :: nat

definition default_params :: params where
  "default_params = \<lparr> antLifespan = 500, antDensity = 50, maxAnts = 200, maxAntHealth = 100,
     foodDensity = 5 / 100, terrainDensity = 5 / 100, eggToAdultTicks = 50,
     foodSpawnInterval = 100, foodSpawnCount = 5, genomeNoise = 1 / 10 \<rparr>"

definition random :: "simulation \<Rightarrow> real \<times> simulation" where
  "random s = (rnd s (rpos s), s\<lparr>rpos := rpos s + 1\<rparr>)"

section \<open>NeuralNetwork\<close>

definition activate :: "real \<Rightarrow> real" where
  "activate v = 1 / (1 + exp (- v))"

text \<open>
  \<open>predict\<close>, on layers that are arrays of numbers. \<open>weightsForNeuron = weightMatrix[neuron]\<close>
  is then a number, \<open>weightsForNeuron.length\<close> is \<open>undefined\<close> and the dot-product loop
  \<open>for (j = 0; j < weightsForNeuron.length; j++)\<close> runs no iteration: \<open>sum\<close> is \<open>0\<close> when
  the bias is added. \<open>biasVector[neuron]\<close> beyond the end of the bias vector is \<open>undefined\<close>
  and makes the sum \<open>NaN\<close>; \<open>this.biases[layer]\<close> beyond the end of \<open>biases\<close> is
  \<open>undefined\<close> and reading \<open>biasVector[neuron]\<close> from it raises a TypeError (which needs a
  neuron, so an empty weight layer raises nothing).
\<close>

definition predict_neuron :: "real list \<Rightarrow> nat \<Rightarrow> real option" where
  "predict_neuron biasVector neuron =
     (if neuron < length biasVector then Some (activate (0 + biasVector ! neuron)) else None)"

fun predict_layers :: "real list list \<Rightarrow> real list list \<Rightarrow> real option list \<Rightarrow> error + real option list" where
  "predict_layers [] bs output = Inr output"
| "predict_layers (weightMatrix # ws) bs output =
     (if weightMatrix = [] then predict_layers ws (tl bs) []
      else case bs of
        [] \<Rightarrow> Inl TypeError
      | biasVector # bs' \<Rightarrow>
          predict_layers ws bs' (map (predict_neuron biasVector) [0..<length weightMatrix]))"

definition predict :: "NeuralNetwork \<Rightarrow> real option list \<Rightarrow> error + real option list" where
  "predict nn inputVector = predict_layers (weights nn) (biases nn) inputVector"

text \<open>
  \<open>softmax\<close>: \<open>Math.max\<close> is \<open>NaN\<close> as soon as one value is, and then every probability is
  \<open>NaN\<close>. On the empty vector the result is empty.
\<close>

definition softmax :: "real option list \<Rightarrow> real option list" where
  "softmax vals =
     (if None \<in> set vals then map (\<lambda>_. None) vals
      else case map the vals of
        [] \<Rightarrow> []
      | v # vs \<Rightarrow>
          (let maxVal = fold max vs v;
               expValues = map (\<lambda>v. exp (v - maxVal)) (v # vs);
               sumExp = foldl (+) 0 expValues
           in map (\<lambda>v. Some (v / sumExp)) expValues))"

text \<open>
  \<open>sampleIndex\<close>: the argument \<open>r\<close> of \<open>sampleIndex\<close> is the value \<open>Math.random()\<close> returned
  on its first line. \<open>r -= probabilities[i]\<close> with a \<open>NaN\<close> makes \<open>r\<close> a \<open>NaN\<close>, and
  \<open>NaN <= 0\<close> is false.
\<close>

fun sampleLoop :: "real option list \<Rightarrow> nat \<Rightarrow> real option \<Rightarrow> nat option" where
  "sampleLoop [] i r = None"
| "sampleLoop (q # qs) i r =
     (case (r, q) of
        (Some rv, Some qv) \<Rightarrow> (if rv - qv \<le> 0 then Some i else sampleLoop qs (i + 1) (Some (rv - qv)))
      | _ \<Rightarrow> sampleLoop qs (i + 1) None)"

definition sampleIndex :: "real option list \<Rightarrow> real \<Rightarrow> int" where
  "sampleIndex probabilities r =
     (case sampleLoop probabilities 0 (Some r) of
        Some i \<Rightarrow> int i
      | None \<Rightarrow> int (length probabilities) - 1)"

section \<open>The grid and the queries of Simulation\<close>

definition getCell :: "params \<Rightarrow> int \<Rightarrow> int \<Rightarrow> simulation \<Rightarrow> cell \<times> simulation" where
  "getCell p cx cy s =
     (case grid s (cx, cy) of
        Some c \<Rightarrow> (c, s)
      | None \<Rightarrow>
          (let (r, s1) = random s;
               cellType = (if r < foodDensity p then Food
                           else if r < foodDensity p + terrainDensity p then Terrain
                           else Empty)
           in (cellType, s1\<lparr>grid := (grid s1)((cx, cy) \<mapsto> cellType)\<rparr>)))"

definition clearCell :: "int \<Rightarrow> int \<Rightarrow> simulation \<Rightarrow> simulation" where
  "clearCell cx cy s = s\<lparr>grid := (grid s)((cx, cy) \<mapsto> Empty)\<rparr>"

fun findIndex :: "('a \<Rightarrow> bool) \<Rightarrow> 'a list \<Rightarrow> nat option" where
  "findIndex P [] = None"
| "findIndex P (a # as) = (if P a then Some 0 else map_option Suc (findIndex P as))"

text \<open>\<open>getAntAt\<close> returns the first ant of the array at the coordinates, as its index.\<close>

definition getAntAt :: "simulation \<Rightarrow> int \<Rightarrow> int \<Rightarrow> nat option" where
  "getAntAt s cx cy = findIndex (\<lambda>a. pos_x a = cx \<and> pos_y a = cy) (ants s)"

section \<open>Ant\<close>

fun randomArray :: "nat \<Rightarrow> simulation \<Rightarrow> real list \<times> simulation" where
  "randomArray 0 s = ([], s)"
| "randomArray (Suc n) s =
     (let (r, s1) = random s; (rs, s2) = randomArray n s1 in ((r * 2 - 1) # rs, s2))"

fun randomLayers :: "nat \<Rightarrow> simulation \<Rightarrow> real list list \<times> simulation" where
  "randomLayers 0 s = ([], s)"
| "randomLayers (Suc n) s =
     (let (l, s1) = randomArray 10 s; (ls, s2) = randomLayers n s1 in (l # ls, s2))"

definition randomWeights :: "simulation \<Rightarrow> real list list \<times> simulation" where
  "randomWeights s = randomLayers 3 s"

definition randomBiases :: "simulation \<Rightarrow> real list list \<times> simulation" where
  "randomBiases s = randomLayers 3 s"

text \<open>
  The constructor \<open>new Ant(x, y, neuralNetwork = null, stage = null)\<close>. Without a network it
  draws a random one (sixty values of \<open>Math.random()\<close>). The new object has no property
  \<open>nextAction\<close>.
\<close>

definition newAnt :: "int \<Rightarrow> int \<Rightarrow> NeuralNetwork option \<Rightarrow> stage option \<Rightarrow> simulation \<Rightarrow> ant \<times> simulation" where
  "newAnt ax ay nn st s =
     (let (net, s') = (case nn of
            Some n \<Rightarrow> (n, s)
          | None \<Rightarrow> (let (w, s1) = randomWeights s; (b, s2) = randomBiases s1
                     in (\<lparr>weights = w, biases = b\<rparr>, s2)))
      in (\<lparr> pos_x = ax, pos_y = ay, age = 0, health = 100,
            stage = (case st of Some t \<Rightarrow> t | None \<Rightarrow> Egg), stageAge = 0,
            neuralNetwork = net, nextAction = None \<rparr>, s'))"

definition vision_offsets :: "(int \<times> int) list" where
  "vision_offsets = [(-1, -1), (0, -1), (1, -1), (-1, 0), (0, 0), (1, 0), (-1, 1), (0, 1), (1, 1)]"

text \<open>
  \<open>processVision\<close>: the two nested loops run \<open>dy\<close> from -1 to 1 and, inside, \<open>dx\<close> from -1
  to 1; \<open>vision_offsets\<close> lists the pairs \<open>(dx, dy)\<close> in that order.
\<close>

fun visionLoop :: "params \<Rightarrow> ant \<Rightarrow> (int \<times> int) list \<Rightarrow> simulation \<Rightarrow> real list \<times> simulation" where
  "visionLoop p a [] s = ([], s)"
| "visionLoop p a ((dx, dy) # ds) s =
     (let (c, s1) = getCell p (pos_x a + dx) (pos_y a + dy) s;
          other = getAntAt s1 (pos_x a + dx) (pos_y a + dy);
          val = (if other \<noteq> None then 2
                 else if c = Food then 1
                 else if c = Terrain then 0
                 else if c = Empty then -1
                 else 0);
          (vs, s2) = visionLoop p a ds s1
      in (val # vs, s2))"

definition processVision :: "params \<Rightarrow> ant \<Rightarrow> simulation \<Rightarrow> real list \<times> simulation" where
  "processVision p a s = visionLoop p a vision_offsets s"

definition actionsFor :: "stage \<Rightarrow> action list" where
  "actionsFor st =
     (if st = Adult then [Up, Down, Left, Right, Attack, Eat, Sleep, Mate, Asexual]
      else [Attack, Eat, Sleep])"

text \<open>The remainder \<open>%\<close> of JavaScript has the sign of the dividend; an array read outside
  the array is \<open>undefined\<close>.\<close>

definition js_rem :: "int \<Rightarrow> int \<Rightarrow> int" where
  "js_rem a n = (if a < 0 then - ((- a) mod n) else a mod n)"

definition js_index :: "'a list \<Rightarrow> int \<Rightarrow> 'a option" where
  "js_index xs k = (if 0 \<le> k \<and> k < int (length xs) then Some (xs ! nat k) else None)"

definition decideAction :: "params \<Rightarrow> ant \<Rightarrow> simulation \<Rightarrow> error + (action option \<times> simulation)" where
  "decideAction p a s =
     (if stage a = Egg then Inr (Some NoAction, s)
      else
        (let (inputVector, s1) = processVision p a s in
         case predict (neuralNetwork a) (map Some inputVector) of
           Inl e \<Rightarrow> Inl e
         | Inr outputVector \<Rightarrow>
             (let actions = actionsFor (stage a);
                  probabilities = softmax outputVector;
                  (r, s2) = random s1;
                  chosenIndex = sampleIndex probabilities r
              in Inr (js_index actions (js_rem chosenIndex (int (length actions))), s2))))"

definition setAnt :: "nat \<Rightarrow> ant \<Rightarrow> simulation \<Rightarrow> simulation" where
  "setAnt i a s = s\<lparr>ants := (ants s)[i := a]\<rparr>"

text \<open>
  \<open>processAction\<close> of the ant at index \<open>i\<close>. The target of an attack is the first of the
  four \<open>getAntAt\<close> results that is an ant.
\<close>

definition attackTarget :: "simulation \<Rightarrow> int \<Rightarrow> int \<Rightarrow> nat option" where
  "attackTarget s ax ay =
     (case getAntAt s ax (ay - 1) of Some t \<Rightarrow> Some t | None \<Rightarrow>
      (case getAntAt s ax (ay + 1) of Some t \<Rightarrow> Some t | None \<Rightarrow>
       (case getAntAt s (ax - 1) ay of Some t \<Rightarrow> Some t | None \<Rightarrow>
        getAntAt s (ax + 1) ay)))"

definition processMove :: "params \<Rightarrow> nat \<Rightarrow> action \<Rightarrow> simulation \<Rightarrow> simulation" where
  "processMove p i act s =
     (let a = ants s ! i;
          newY = (if act = Up then pos_y a - 1 else if act = Down then pos_y a + 1 else pos_y a);
          newX = (if act = Left then pos_x a - 1 else if act = Right then pos_x a + 1 else pos_x a);
          (c, s1) = getCell p newX newY s
      in if c = Terrain then s1
         else setAnt i ((ants s1 ! i)\<lparr>pos_x := newX, pos_y := newY\<rparr>) s1)"

definition processAttack :: "params \<Rightarrow> nat \<Rightarrow> simulation \<Rightarrow> simulation" where
  "processAttack p i s =
     (let a = ants s ! i in
      case attackTarget s (pos_x a) (pos_y a) of
        None \<Rightarrow> s
      | Some t \<Rightarrow>
          (if stage (ants s ! t) = Egg then
             (let s1 = setAnt t ((ants s ! t)\<lparr>health := health (ants s ! t) - 50\<rparr>) s
              in setAnt i ((ants s1 ! i)\<lparr>health := min (maxAntHealth p) (health (ants s1 ! i) + 20)\<rparr>) s1)
           else setAnt t ((ants s ! t)\<lparr>health := health (ants s ! t) - 10\<rparr>) s))"

definition processEat :: "params \<Rightarrow> nat \<Rightarrow> simulation \<Rightarrow> simulation" where
  "processEat p i s =
     (let a = ants s ! i;
          (c, s1) = getCell p (pos_x a) (pos_y a) s
      in if c = Food then
           clearCell (pos_x a) (pos_y a)
             (setAnt i ((ants s1 ! i)\<lparr>health := min 100 (health (ants s1 ! i) + 20)\<rparr>) s1)
         else s1)"

definition processSleep :: "nat \<Rightarrow> simulation \<Rightarrow> simulation" where
  "processSleep i s = setAnt i ((ants s ! i)\<lparr>health := min 100 (health (ants s ! i) + 5)\<rparr>) s"

definition processAsexual :: "params \<Rightarrow> nat \<Rightarrow> simulation \<Rightarrow> simulation" where
  "processAsexual p i s =
     (if real (length (ants s)) < maxAnts p then
        (let s1 = setAnt i ((ants s ! i)\<lparr>health := health (ants s ! i) / 2\<rparr>) s;
             a = ants s1 ! i;
             (egg, s2) = newAnt (pos_x a) (pos_y a) None None s1;
             egg' = egg\<lparr>neuralNetwork := \<lparr>weights = weights (neuralNetwork a),
                                            biases = biases (neuralNetwork a)\<rparr>,
                        stage := Egg, stageAge := 0, health := 50\<rparr>
         in s2\<lparr>ants := ants s2 @ [egg']\<rparr>)
      else s)"

definition processAction :: "params \<Rightarrow> nat \<Rightarrow> action option \<Rightarrow> simulation \<Rightarrow> simulation" where
  "processAction p i act s =
     (case act of
        Some Up \<Rightarrow> processMove p i Up s
      | Some Down \<Rightarrow> processMove p i Down s
      | Some Left \<Rightarrow> processMove p i Left s
      | Some Right \<Rightarrow> processMove p i Right s
      | Some Attack \<Rightarrow> processAttack p i s
      | Some Eat \<Rightarrow> processEat p i s
      | Some Sleep \<Rightarrow> processSleep i s
      | Some Asexual \<Rightarrow> processAsexual p i s
      | _ \<Rightarrow> s)"

section \<open>Simulation.update\<close>

subsection \<open>Crossover\<close>

text \<open>
  The loop over \<open>i < ant.neuralNetwork.weights.length\<close> pushes the layer of the initiating
  ant for even \<open>i\<close> and of the partner for odd \<open>i\<close>; a read beyond the end of an array pushes
  \<open>undefined\<close>, on which \<open>layer.map\<close> raises a TypeError. The noise is drawn for all weights
  first, then for all biases.
\<close>

definition jsNth :: "'a list \<Rightarrow> nat \<Rightarrow> 'a option" where
  "jsNth xs i = (if i < length xs then Some (xs ! i) else None)"

definition crossLayers :: "real list list \<Rightarrow> real list list \<Rightarrow> nat \<Rightarrow> real list option list" where
  "crossLayers la lb n = map (\<lambda>i. if i mod 2 = 0 then jsNth la i else jsNth lb i) [0..<n]"

fun mutateRow :: "real \<Rightarrow> real list \<Rightarrow> simulation \<Rightarrow> real list \<times> simulation" where
  "mutateRow g [] s = ([], s)"
| "mutateRow g (v # vs) s =
     (let (r, s1) = random s; (ws, s2) = mutateRow g vs s1
      in ((v + (r - 1 / 2) * g) # ws, s2))"

fun mutateLayers :: "real \<Rightarrow> real list option list \<Rightarrow> simulation \<Rightarrow> error + (real list list \<times> simulation)" where
  "mutateLayers g [] s = Inr ([], s)"
| "mutateLayers g (None # ls) s = Inl TypeError"
| "mutateLayers g (Some l # ls) s =
     (let (l', s1) = mutateRow g l s in
      case mutateLayers g ls s1 of
        Inl e \<Rightarrow> Inl e
      | Inr (ls', s2) \<Rightarrow> Inr (l' # ls', s2))"

definition crossover :: "params \<Rightarrow> NeuralNetwork \<Rightarrow> NeuralNetwork \<Rightarrow> simulation \<Rightarrow> error + (NeuralNetwork \<times> simulation)" where
  "crossover p na nb s =
     (let n = length (weights na);
          offspringWeights = crossLayers (weights na) (weights nb) n;
          offspringBiases = crossLayers (biases na) (biases nb) n
      in case mutateLayers (genomeNoise p) offspringWeights s of
           Inl e \<Rightarrow> Inl e
         | Inr (w, s1) \<Rightarrow>
             (case mutateLayers (genomeNoise p) offspringBiases s1 of
                Inl e \<Rightarrow> Inl e
              | Inr (b, s2) \<Rightarrow> Inr (\<lparr>weights = w, biases = b\<rparr>, s2)))"

subsection \<open>Phase 1: decide\<close>

lemma getCell_ants: "getCell p cx cy s = (c, s') \<Longrightarrow> ants s' = ants s"
  by (auto simp: getCell_def random_def Let_def split: option.splits)

lemma visionLoop_ants: "visionLoop p a ds s = (vs, s') \<Longrightarrow> ants s' = ants s"
proof (induction ds arbitrary: s vs s')
  case Nil
  then show ?case by simp
next
  case (Cons d ds)
  obtain dx dy where d: "d = (dx, dy)" by (cases d)
  obtain c s1 where g: "getCell p (pos_x a + dx) (pos_y a + dy) s = (c, s1)"
    by (cases "getCell p (pos_x a + dx) (pos_y a + dy) s")
  obtain ws s2 where v: "visionLoop p a ds s1 = (ws, s2)"
    by (cases "visionLoop p a ds s1")
  from Cons.prems d g v have "s' = s2" by (simp add: Let_def)
  with Cons.IH[OF v] getCell_ants[OF g] show ?case by simp
qed

lemma decideAction_ants: "decideAction p a s = Inr (act, s') \<Longrightarrow> ants s' = ants s"
  by (auto simp: decideAction_def processVision_def random_def Let_def
      split: if_splits prod.splits sum.splits dest: visionLoop_ants)

function phase1 :: "params \<Rightarrow> nat \<Rightarrow> simulation \<Rightarrow> error + simulation" where
  "phase1 p i s =
     (if i < length (ants s) then
        (case decideAction p (ants s ! i) s of
           Inl e \<Rightarrow> Inl e
         | Inr (act, s1) \<Rightarrow> phase1 p (i + 1) (setAnt i ((ants s1 ! i)\<lparr>nextAction := act\<rparr>) s1))
      else Inr s)"
  by pat_completeness auto
termination
  by (relation "measure (\<lambda>(p, i, s). length (ants s) - i)")
     (auto simp: setAnt_def dest: decideAction_ants)

declare phase1.simps [simp del]

subsection \<open>Phase 2: mating\<close>

fun findPartner :: "nat set \<Rightarrow> simulation \<Rightarrow> (int \<times> int) list \<Rightarrow> nat option" where
  "findPartner matedAnts s [] = None"
| "findPartner matedAnts s ((nx, ny) # ns) =
     (case getAntAt s nx ny of
        Some j \<Rightarrow>
          (if nextAction (ants s ! j) = Some Mate \<and> stage (ants s ! j) = Adult \<and> j \<notin> matedAnts
           then Some j else findPartner matedAnts s ns)
      | None \<Rightarrow> findPartner matedAnts s ns)"

definition neighbors :: "ant \<Rightarrow> (int \<times> int) list" where
  "neighbors a = [(pos_x a, pos_y a - 1), (pos_x a, pos_y a + 1),
                  (pos_x a - 1, pos_y a), (pos_x a + 1, pos_y a)]"

definition mateStep :: "params \<Rightarrow> nat \<Rightarrow> nat set \<Rightarrow> simulation \<Rightarrow> error + (nat set \<times> simulation)" where
  "mateStep p i matedAnts s =
     (let a = ants s ! i in
      if nextAction a = Some Mate \<and> stage a = Adult \<and> i \<notin> matedAnts then
        (case findPartner matedAnts s (neighbors a) of
           None \<Rightarrow> Inr (matedAnts, s)
         | Some j \<Rightarrow>
             (if real (length (ants s)) < maxAnts p then
                (case crossover p (neuralNetwork a) (neuralNetwork (ants s ! j)) s of
                   Inl e \<Rightarrow> Inl e
                 | Inr (nn, s1) \<Rightarrow>
                     (let (egg, s2) = newAnt (pos_x a) (pos_y a) (Some nn) None s1;
                          egg' = egg\<lparr>stage := Egg, stageAge := 0, health := 50\<rparr>
                      in Inr (insert j (insert i matedAnts), s2\<lparr>ants := ants s2 @ [egg']\<rparr>)))
              else Inr (matedAnts, s)))
      else Inr (matedAnts, s))"

lemma mutateRow_ants: "mutateRow g l s = (l', s') \<Longrightarrow> ants s' = ants s"
  by (induction l arbitrary: s l' s') (auto simp: random_def Let_def split: prod.splits)

lemma mutateLayers_ants: "mutateLayers g ls s = Inr (ls', s') \<Longrightarrow> ants s' = ants s"
proof (induction g ls s arbitrary: ls' s' rule: mutateLayers.induct)
  case (3 g l ls s)
  then show ?case
    by (auto simp: Let_def split: prod.splits sum.splits dest: mutateRow_ants)
qed auto

lemma crossover_ants: "crossover p na nb s = Inr (nn, s') \<Longrightarrow> ants s' = ants s"
  by (auto simp: crossover_def Let_def split: sum.splits dest!: mutateLayers_ants)

lemma mateStep_ants:
  assumes "mateStep p i m s = Inr (m', s')"
  shows "ants s' = ants s \<or>
         (nextAction (ants s ! i) = Some Mate \<and> (\<exists>egg. ants s' = ants s @ [egg] \<and> nextAction egg = None))"
  using assms
  by (auto simp: mateStep_def newAnt_def Let_def
      split: if_splits option.splits sum.splits prod.splits dest: crossover_ants)

text \<open>
  A \<open>for ... of\<close> loop over an array visits the elements pushed while it runs. The loop of
  phase 2 ends all the same: an egg it pushes has no \<open>nextAction\<close>, so its own turn pushes
  nothing.
\<close>

definition pending :: "action \<Rightarrow> nat \<Rightarrow> simulation \<Rightarrow> nat" where
  "pending act i s =
     2 * length (filter (\<lambda>n. n = Some act) (drop i (map nextAction (ants s)))) + (length (ants s) - i)"

lemma pending_same:
  "i < length (ants s) \<Longrightarrow> map nextAction (ants s') = map nextAction (ants s) \<Longrightarrow>
   pending act (i + 1) s' < pending act i s"
proof -
  assume i: "i < length (ants s)" and m: "map nextAction (ants s') = map nextAction (ants s)"
  from m have l: "length (ants s') = length (ants s)" by (metis length_map)
  have "drop i (map nextAction (ants s)) =
        map nextAction (ants s) ! i # drop (Suc i) (map nextAction (ants s))"
    using i Cons_nth_drop_Suc[of i "map nextAction (ants s)"] by simp
  then have "length (filter (\<lambda>n. n = Some act) (drop (Suc i) (map nextAction (ants s))))
        \<le> length (filter (\<lambda>n. n = Some act) (drop i (map nextAction (ants s))))"
    by simp
  then show ?thesis using i l m unfolding pending_def by simp
qed

lemma pending_push:
  "i < length (ants s) \<Longrightarrow> nextAction (ants s ! i) = Some act \<Longrightarrow>
   map nextAction (ants s') = map nextAction (ants s) @ [None] \<Longrightarrow>
   pending act (i + 1) s' < pending act i s"
proof -
  assume i: "i < length (ants s)" and a: "nextAction (ants s ! i) = Some act"
    and m: "map nextAction (ants s') = map nextAction (ants s) @ [None]"
  from m have l: "length (ants s') = length (ants s) + 1"
    by (metis length_map length_append_singleton Suc_eq_plus1)
  have "drop i (map nextAction (ants s)) =
        map nextAction (ants s) ! i # drop (Suc i) (map nextAction (ants s))"
    using i Cons_nth_drop_Suc[of i "map nextAction (ants s)"] by simp
  then have "Suc (length (filter (\<lambda>n. n = Some act) (drop (Suc i) (map nextAction (ants s)))))
        = length (filter (\<lambda>n. n = Some act) (drop i (map nextAction (ants s))))"
    using i a by simp
  then show ?thesis using i l m unfolding pending_def by simp
qed

function phase2 :: "params \<Rightarrow> nat \<Rightarrow> nat set \<Rightarrow> simulation \<Rightarrow> error + simulation" where
  "phase2 p i matedAnts s =
     (if i < length (ants s) then
        (case mateStep p i matedAnts s of
           Inl e \<Rightarrow> Inl e
         | Inr (matedAnts', s1) \<Rightarrow> phase2 p (i + 1) matedAnts' s1)
      else Inr s)"
  by pat_completeness auto
termination
proof (relation "measure (\<lambda>(p, i, m, s). pending Mate i s)", goal_cases)
  case 1
  show ?case by simp
next
  case (2 p i m s r m' s1)
  then have "mateStep p i m s = Inr (m', s1)" by simp
  from mateStep_ants[OF this] have "pending Mate (i + 1) s1 < pending Mate i s"
  proof
    assume "ants s1 = ants s"
    then show ?thesis using pending_same[OF 2(1), of s1 Mate] by simp
  next
    assume "nextAction (ants s ! i) = Some Mate \<and>
            (\<exists>egg. ants s1 = ants s @ [egg] \<and> nextAction egg = None)"
    then show ?thesis using pending_push[OF 2(1), of Mate s1] by auto
  qed
  then show ?case by simp
qed

declare phase2.simps [simp del]

subsection \<open>Phase 3: actions and ageing\<close>

text \<open>
  The rest of the body of the third loop, after \<open>processAction\<close>. The jitter is drawn only
  when the stage is \<open>adult\<close> (the \<open>&&\<close> does not evaluate its right side otherwise).
\<close>

definition ageStep :: "params \<Rightarrow> nat \<Rightarrow> simulation \<Rightarrow> simulation" where
  "ageStep p i s =
     (let a = ants s ! i;
          a1 = a\<lparr>age := age a + 1, stageAge := stageAge a + 1, health := health a - 1\<rparr>;
          a2 = (if stage a1 = Egg \<and> eggToAdultTicks p \<le> real (stageAge a1)
                then a1\<lparr>stage := Adult, health := 100\<rparr> else a1)
      in if stage a2 = Adult then
           (let (r, s1) = random s in
            setAnt i (if antLifespan p + (r - 1 / 2) * (5 / 100) \<le> real (age a2)
                      then a2\<lparr>stage := Old\<rparr> else a2) s1)
         else setAnt i a2 s)"

definition actStep :: "params \<Rightarrow> nat \<Rightarrow> simulation \<Rightarrow> simulation" where
  "actStep p i s =
     (let act = nextAction (ants s ! i);
          s1 = (if act \<noteq> Some Mate then processAction p i act s else s)
      in ageStep p i s1)"

lemma map_nextAction_update:
  "nextAction a = nextAction (xs ! i) \<Longrightarrow> map nextAction (xs[i := a]) = map nextAction xs"
  by (metis list_update_id map_update)

lemma processMove_nextActions:
  "map nextAction (ants (processMove p i act s)) = map nextAction (ants s)"
  by (auto simp: processMove_def setAnt_def Let_def map_nextAction_update
      split: prod.splits dest!: getCell_ants)

lemma processAttack_nextActions:
  "map nextAction (ants (processAttack p i s)) = map nextAction (ants s)"
  by (auto simp: processAttack_def setAnt_def Let_def map_nextAction_update nth_list_update
      split: option.splits)

lemma processEat_nextActions:
  "map nextAction (ants (processEat p i s)) = map nextAction (ants s)"
  by (auto simp: processEat_def clearCell_def setAnt_def Let_def map_nextAction_update
      split: prod.splits dest!: getCell_ants)

lemma processSleep_nextActions:
  "map nextAction (ants (processSleep i s)) = map nextAction (ants s)"
  by (simp add: processSleep_def setAnt_def map_nextAction_update)

lemma randomArray_ants: "randomArray n s = (l, s') \<Longrightarrow> ants s' = ants s"
  by (induction n arbitrary: s l s') (auto simp: random_def Let_def split: prod.splits)

lemma randomLayers_ants: "randomLayers n s = (ls, s') \<Longrightarrow> ants s' = ants s"
  by (induction n arbitrary: s ls s')
     (auto simp: Let_def simp del: randomArray.simps split: prod.splits dest!: randomArray_ants)

lemma newAnt_ants: "newAnt ax ay nn st s = (a, s') \<Longrightarrow> ants s' = ants s"
  by (auto simp: newAnt_def randomWeights_def randomBiases_def Let_def
      split: option.splits prod.splits dest!: randomLayers_ants)

lemma newAnt_nextAction: "newAnt ax ay nn st s = (a, s') \<Longrightarrow> nextAction a = None"
  by (auto simp: newAnt_def Let_def split: option.splits prod.splits)

lemma processAsexual_nextActions:
  "map nextAction (ants (processAsexual p i s)) = map nextAction (ants s) \<or>
   map nextAction (ants (processAsexual p i s)) = map nextAction (ants s) @ [None]"
proof (cases "real (length (ants s)) < maxAnts p")
  case True
  define s1 where "s1 = setAnt i ((ants s ! i)\<lparr>health := health (ants s ! i) / 2\<rparr>) s"
  obtain egg s2 where n: "newAnt (pos_x (ants s1 ! i)) (pos_y (ants s1 ! i)) None None s1 = (egg, s2)"
    by (cases "newAnt (pos_x (ants s1 ! i)) (pos_y (ants s1 ! i)) None None s1")
  have "map nextAction (ants s1) = map nextAction (ants s)"
    by (simp add: s1_def setAnt_def map_nextAction_update)
  with newAnt_ants[OF n] newAnt_nextAction[OF n] True n show ?thesis
    by (simp add: processAsexual_def Let_def s1_def[symmetric])
next
  case False
  then show ?thesis by (simp add: processAsexual_def)
qed

lemma processAction_nextActions:
  "map nextAction (ants (processAction p i act s)) = map nextAction (ants s) \<or>
   (act = Some Asexual \<and>
    map nextAction (ants (processAction p i act s)) = map nextAction (ants s) @ [None])"
  using processAsexual_nextActions[of p i s]
  by (auto simp: processAction_def processMove_nextActions processAttack_nextActions
      processEat_nextActions processSleep_nextActions split: option.splits action.splits)

lemma ageStep_nextActions:
  "map nextAction (ants (ageStep p i s)) = map nextAction (ants s)"
  by (auto simp: ageStep_def setAnt_def random_def Let_def map_nextAction_update)

lemma actStep_nextActions:
  "map nextAction (ants (actStep p i s)) = map nextAction (ants s) \<or>
   (nextAction (ants s ! i) = Some Asexual \<and>
    map nextAction (ants (actStep p i s)) = map nextAction (ants s) @ [None])"
  using processAction_nextActions[of p i "nextAction (ants s ! i)" s]
  by (auto simp: actStep_def ageStep_nextActions Let_def)

text \<open>
  The third loop also visits the eggs pushed before it (by phase 2) and while it runs (by
  \<open>asexual\<close>); such an egg has no \<open>nextAction\<close> and pushes nothing.
\<close>

function phase3 :: "params \<Rightarrow> nat \<Rightarrow> simulation \<Rightarrow> simulation" where
  "phase3 p i s = (if i < length (ants s) then phase3 p (i + 1) (actStep p i s) else s)"
  by pat_completeness auto
termination
proof (relation "measure (\<lambda>(p, i, s). pending Asexual i s)", goal_cases)
  case 1
  show ?case by simp
next
  case (2 p i s)
  from actStep_nextActions[of p i s]
  have "pending Asexual (i + 1) (actStep p i s) < pending Asexual i s"
  proof
    assume "map nextAction (ants (actStep p i s)) = map nextAction (ants s)"
    then show ?thesis using pending_same[OF 2] by simp
  next
    assume "nextAction (ants s ! i) = Some Asexual \<and>
            map nextAction (ants (actStep p i s)) = map nextAction (ants s) @ [None]"
    then show ?thesis using pending_push[OF 2] by simp
  qed
  then show ?case by simp
qed

declare phase3.simps [simp del]

subsection \<open>The cull and the whole tick\<close>

definition cull :: "simulation \<Rightarrow> simulation" where
  "cull s = s\<lparr>ants := filter (\<lambda>a. stage a \<noteq> Old) (filter (\<lambda>a. health a > 0) (ants s))\<rparr>"

text \<open>\<open>update_phases\<close> is \<open>update\<close> up to the two filters of its last lines.\<close>

definition update_phases :: "params \<Rightarrow> simulation \<Rightarrow> error + simulation" where
  "update_phases p s =
     (case phase1 p 0 s of
        Inl e \<Rightarrow> Inl e
      | Inr s1 \<Rightarrow>
          (case phase2 p 0 {} s1 of
             Inl e \<Rightarrow> Inl e
           | Inr s2 \<Rightarrow> Inr (phase3 p 0 s2)))"

definition update :: "params \<Rightarrow> simulation \<Rightarrow> error + simulation" where
  "update p s = (case update_phases p s of Inl e \<Rightarrow> Inl e | Inr s3 \<Rightarrow> Inr (cull s3))"

section \<open>Concrete states\<close>

text \<open>
  States on which the theorems below are evaluated: the empty \<open>Map\<close>, a \<open>Math.random\<close>
  that always returns the same value, and ants whose network has one layer of nine zero
  weights and nine zero biases (every output is \<open>1/2\<close>, so every action has probability
  \<open>1/9\<close>).
\<close>

definition emptyGrid :: "int \<times> int \<Rightarrow> cell option" where
  "emptyGrid = (\<lambda>k. None)"

definition constant_draws :: "real \<Rightarrow> nat \<Rightarrow> real" where
  "constant_draws r = (\<lambda>n. r)"

definition zero_net :: NeuralNetwork where
  "zero_net = \<lparr>weights = [[0, 0, 0, 0, 0, 0, 0, 0, 0]], biases = [[0, 0, 0, 0, 0, 0, 0, 0, 0]]\<rparr>"

definition example_ant :: "int \<Rightarrow> int \<Rightarrow> nat \<Rightarrow> real \<Rightarrow> stage \<Rightarrow> ant" where
  "example_ant ax ay n h st =
     \<lparr>pos_x = ax, pos_y = ay, age = n, health = h, stage = st, stageAge = n,
      neuralNetwork = zero_net, nextAction = None\<rparr>"

text \<open>An egg about to starve, a healthy egg, and an adult one tick before its lifespan.\<close>

definition cull_example :: simulation where
  "cull_example =
     \<lparr>ants = [example_ant 0 0 3 1 Egg, example_ant 5 5 3 50 Egg, example_ant 9 9 499 80 Adult],
      grid = emptyGrid, rnd = constant_draws 0, rpos = 0\<rparr>"

text \<open>Two adjacent adults; with every draw \<open>17/20\<close> both choose \<open>mate\<close>.\<close>

definition mating_example :: simulation where
  "mating_example =
     \<lparr>ants = [example_ant 0 0 3 80 Adult, example_ant 1 0 7 60 Adult],
      grid = emptyGrid, rnd = constant_draws (17 / 20), rpos = 0\<rparr>"

text \<open>A single adult one tick before \<open>antLifespan\<close>, with every draw equal to \<open>r\<close>.\<close>

definition lifespan_example :: "real \<Rightarrow> simulation" where
  "lifespan_example r =
     \<lparr>ants = [example_ant 0 0 499 80 Adult], grid = emptyGrid, rnd = constant_draws r, rpos = 0\<rparr>"

text \<open>A single adult; with every draw \<open>19/20\<close> it chooses \<open>asexual\<close>.\<close>

definition asexual_example :: simulation where
  "asexual_example =
     \<lparr>ants = [example_ant 0 0 3 80 Adult], grid = emptyGrid, rnd = constant_draws (19 / 20), rpos = 0\<rparr>"

text \<open>The same two adults, the first with a single point of health left.\<close>

definition starving_pair_example :: simulation where
  "starving_pair_example =
     \<lparr>ants = [example_ant 0 0 3 1 Adult, example_ant 1 0 7 60 Adult],
      grid = emptyGrid, rnd = constant_draws (17 / 20), rpos = 0\<rparr>"

text \<open>A single adult; with every draw 0 each cell it looks at is generated as food.\<close>

definition lone_example :: simulation where
  "lone_example =
     \<lparr>ants = [example_ant 0 0 3 80 Adult], grid = emptyGrid, rnd = constant_draws 0, rpos = 0\<rparr>"

text \<open>An adult standing on a food cell.\<close>

definition eat_example :: simulation where
  "eat_example =
     \<lparr>ants = [example_ant 0 0 3 80 Adult], grid = emptyGrid((0, 0) \<mapsto> Food),
      rnd = constant_draws 0, rpos = 0\<rparr>"

text \<open>Two networks of the same shape (a layer of two and a layer of one).\<close>

definition parent_a :: NeuralNetwork where
  "parent_a = \<lparr>weights = [[1, 2], [3]], biases = [[0, 0], [1]]\<rparr>"

definition parent_b :: NeuralNetwork where
  "parent_b = \<lparr>weights = [[5, 6], [7]], biases = [[9, 9], [4]]\<rparr>"

text \<open>
  Two adjacent adults that have both chosen \<open>mate\<close>, with the networks \<open>parent_a\<close> and
  \<open>parent_b\<close>: a state of the second loop.
\<close>

definition courting_example :: simulation where
  "courting_example =
     \<lparr>ants = [(example_ant 0 0 3 80 Adult)\<lparr>neuralNetwork := parent_a, nextAction := Some Mate\<rparr>,
              (example_ant 1 0 7 60 Adult)\<lparr>neuralNetwork := parent_b, nextAction := Some Mate\<rparr>],
      grid = emptyGrid, rnd = constant_draws (3 / 4), rpos = 0\<rparr>"

text \<open>
  A single adult one tick before \<open>antLifespan\<close>. Every draw is \<open>3/4\<close> but the eleventh,
  which is \<open>1/4\<close>: nine draws generate the cells the ant looks at, the tenth chooses its
  action (\<open>sleep\<close>), and the eleventh is the jitter of its lifespan test.
\<close>

definition jitter_example :: simulation where
  "jitter_example =
     \<lparr>ants = [example_ant 0 0 499 80 Adult], grid = emptyGrid,
      rnd = (\<lambda>n. if n = 10 then 1 / 4 else 3 / 4), rpos = 0\<rparr>"

section \<open>Predicates of the statements and of the proofs\<close>

text \<open>
  The sensory vector as the specification words it: a cell is 2 when an organism other than
  the one looking is on it.
\<close>

definition claimed_vision :: "ant \<Rightarrow> simulation \<Rightarrow> real list" where
  "claimed_vision a s =
     map (\<lambda>(dx, dy).
            if (\<exists>b \<in> set (ants s). b \<noteq> a \<and> pos_x b = pos_x a + dx \<and> pos_y b = pos_y a + dy) then 2
            else (case grid s (pos_x a + dx, pos_y a + dy) of
                    Some Food \<Rightarrow> 1 | Some Terrain \<Rightarrow> 0 | _ \<Rightarrow> -1))
         vision_offsets"

text \<open>
  The value \<open>processVision\<close> stores for a cell, as a function of the state \<open>s\<close> in which the
  ants are looked up and the state \<open>s'\<close> in which the cell has been generated.
\<close>

definition cell_value :: "simulation \<Rightarrow> simulation \<Rightarrow> int \<times> int \<Rightarrow> real" where
  "cell_value s s' c =
     (if getAntAt s (fst c) (snd c) \<noteq> None then 2
      else if grid s' c = Some Food then 1
      else if grid s' c = Some Terrain then 0
      else -1)"

text \<open>
  What one step of the third loop may change. \<open>frame i s s'\<close>: the array did not shrink,
  the draws are the same sequence, every ant but the one at index \<open>i\<close> changed at most its
  health, and the ant at index \<open>i\<close> changed at most its health and its position.
\<close>

definition frame :: "nat \<Rightarrow> simulation \<Rightarrow> simulation \<Rightarrow> bool" where
  "frame i s s' =
     (length (ants s) \<le> length (ants s') \<and> rnd s' = rnd s \<and>
      (\<forall>j < length (ants s). j \<noteq> i \<longrightarrow>
         (ants s' ! j)\<lparr>health := 0\<rparr> = (ants s ! j)\<lparr>health := 0\<rparr>) \<and>
      (i < length (ants s) \<longrightarrow>
         (ants s' ! i)\<lparr>health := 0, pos_x := 0, pos_y := 0\<rparr>
           = (ants s ! i)\<lparr>health := 0, pos_x := 0, pos_y := 0\<rparr>))"

text \<open>
  The eggs of a tick. \<open>newborn\<close> is the state in which an egg is pushed, \<open>aged_once\<close> its
  state after its own turn in the third loop.
\<close>

definition newborn :: "ant \<Rightarrow> bool" where
  "newborn a = (stage a = Egg \<and> age a = 0 \<and> stageAge a = 0 \<and> health a = 50 \<and> nextAction a = None)"

definition aged_once :: "params \<Rightarrow> ant \<Rightarrow> bool" where
  "aged_once p a =
     (age a = 1 \<and> stageAge a = 1 \<and> nextAction a = None \<and>
      (if eggToAdultTicks p \<le> 1 then health a = 100 \<and> stage a \<noteq> Egg
       else health a = 49 \<and> stage a = Egg))"

text \<open>
  The invariant of the eggs of a tick, at index \<open>i\<close> of the third loop; \<open>n0\<close> is the size
  of the array when the tick began. Every ant from index \<open>n0\<close> on has an earlier ant on its
  cell that will not move any more in this tick (its turn is over, or its action is \<open>mate\<close>),
  and is \<open>aged_once\<close> when its turn is over and \<open>newborn\<close> before.
\<close>

definition born_inv :: "params \<Rightarrow> nat \<Rightarrow> nat \<Rightarrow> simulation \<Rightarrow> bool" where
  "born_inv p n0 i s =
     (\<forall>j. n0 \<le> j \<and> j < length (ants s) \<longrightarrow>
        (\<exists>k < j. pos_x (ants s ! k) = pos_x (ants s ! j) \<and> pos_y (ants s ! k) = pos_y (ants s ! j) \<and>
                 (k < i \<or> nextAction (ants s ! k) = Some Mate)) \<and>
        (if j < i then aged_once p (ants s ! j) else newborn (ants s ! j)))"

text \<open>
  The first statement of the body of the third loop: the action of the ant at index \<open>i\<close>,
  unless it is \<open>mate\<close>. The ageing follows it (\<open>actStep\<close> is \<open>ageStep\<close> after \<open>actOnly\<close>).
\<close>

definition actOnly :: "params \<Rightarrow> nat \<Rightarrow> simulation \<Rightarrow> simulation" where
  "actOnly p i s =
     (let act = nextAction (ants s ! i)
      in if act \<noteq> Some Mate then processAction p i act s else s)"

text \<open>
  The value \<open>Math.random()\<close> returns in the lifespan test of the ant at index \<open>j\<close>, in the
  tick that starts in \<open>s\<close>: the next draw of the state in which the third loop has
  finished the ants before \<open>j\<close> and the action of \<open>j\<close>. It is \<open>None\<close> when the tick raises
  an error before the third loop.
\<close>

definition jitterDraw :: "params \<Rightarrow> nat \<Rightarrow> simulation \<Rightarrow> real option" where
  "jitterDraw p j s =
     (case phase1 p 0 s of
        Inl e \<Rightarrow> None
      | Inr s1 \<Rightarrow>
          (case phase2 p 0 {} s1 of
             Inl e \<Rightarrow> None
           | Inr s2 \<Rightarrow>
               (let t = actOnly p j (fold (actStep p) [0..<j] s2) in Some (rnd t (rpos t)))))"

section \<open>Evaluation on concrete states\<close>

lemmas eval_defs =
  decideAction_def processVision_def vision_offsets_def getCell_def random_def
  default_params_def getAntAt_def Let_def predict_def predict_neuron_def activate_def upt_rec
  softmax_def sampleIndex_def actionsFor_def js_rem_def js_index_def setAnt_def emptyGrid_def
  constant_draws_def mateStep_def neighbors_def crossover_def crossLayers_def jsNth_def newAnt_def
  actStep_def ageStep_def processAction_def cull_def processMove_def processEat_def
  processAttack_def processSleep_def processAsexual_def attackTarget_def clearCell_def
  update_def update_phases_def phase1.simps phase2.simps phase3.simps zero_net_def
  example_ant_def lone_example_def lifespan_example_def eat_example_def mating_example_def
  asexual_example_def cull_example_def starving_pair_example_def parent_a_def parent_b_def
  jitter_example_def jitterDraw_def actOnly_def

section \<open>sampleIndex\<close>

lemma sampleLoop_range: "sampleLoop qs i r = Some k \<Longrightarrow> i \<le> k \<and> k < i + length qs"
proof (induction qs arbitrary: i r)
  case Nil
  then show ?case by simp
next
  case (Cons q qs)
  then show ?case
    by (fastforce split: option.splits if_splits)
qed

text \<open>
  C7. For every probability vector whose sum is within a tolerance \<open>eps < 1\<close> of 1 and
  every draw \<open>r\<close> in \<open>[0, 1)\<close>, \<open>sampleIndex\<close> returns an index in \<open>[0, length)\<close>; and on
  the vector \<open>[1, 0, ..., 0]\<close> it returns index 0 for every such draw.
\<close>

theorem sampleIndex_in_range:
  assumes "\<bar>sum_list ps - 1\<bar> \<le> eps" and "eps < 1" and "0 \<le> r" and "r < 1"
  shows "0 \<le> sampleIndex (map Some ps) r \<and> sampleIndex (map Some ps) r < int (length ps) \<and>
         sampleIndex (map Some (1 # replicate n 0)) r = 0"
proof -
  from assms(1,2) have ne: "ps \<noteq> []" by auto
  have a: "0 \<le> sampleIndex (map Some ps) r \<and> sampleIndex (map Some ps) r < int (length ps)"
  proof (cases "sampleLoop (map Some ps) 0 (Some r)")
    case None
    then show ?thesis using ne by (simp add: sampleIndex_def)
  next
    case (Some k)
    from sampleLoop_range[OF Some] Some show ?thesis by (simp add: sampleIndex_def)
  qed
  have b: "sampleIndex (map Some (1 # replicate n 0)) r = 0"
    using assms(4) by (simp add: sampleIndex_def)
  from a b show ?thesis by simp
qed

theorem sampleIndex_in_range_witness:
  "0 \<le> sampleIndex (map Some [1 / 2, 1 / 2]) (3 / 4) \<and>
   sampleIndex (map Some [1 / 2, 1 / 2]) (3 / 4) < int (length [1 / 2, 1 / 2 :: real]) \<and>
   sampleIndex (map Some (1 # replicate 2 0)) (3 / 4) = 0"
  using sampleIndex_in_range[of "[1 / 2, 1 / 2]" 0 "3 / 4" 2] by simp

section \<open>The grid\<close>

text \<open>
  C9 (as the code has it). \<open>clearCell(x, y)\<close>, the only operation that consumes food, sets
  the cell to \<open>empty\<close> whatever its classification was (food, terrain, empty or not yet
  generated) and changes no other cell, no ant and no random draw.
\<close>

theorem clearCell_sets_empty:
  "grid (clearCell cx cy s) k = (if k = (cx, cy) then Some Empty else grid s k) \<and>
   ants (clearCell cx cy s) = ants s \<and> rnd (clearCell cx cy s) = rnd s \<and>
   rpos (clearCell cx cy s) = rpos s"
  by (simp add: clearCell_def)

text \<open>On a terrain cell \<open>clearCell\<close> is not a no-op: the terrain cell becomes empty.\<close>

theorem clearCell_terrain_counterexample:
  "grid \<lparr>ants = [], grid = emptyGrid((0, 0) \<mapsto> Terrain), rnd = constant_draws 0, rpos = 0\<rparr> (0, 0)
     = Some Terrain \<and>
   grid (clearCell 0 0 \<lparr>ants = [], grid = emptyGrid((0, 0) \<mapsto> Terrain), rnd = constant_draws 0, rpos = 0\<rparr>) (0, 0)
     = Some Empty \<and>
   grid (clearCell 0 0 \<lparr>ants = [], grid = emptyGrid((0, 0) \<mapsto> Terrain), rnd = constant_draws 0, rpos = 0\<rparr>)
     \<noteq> grid \<lparr>ants = [], grid = emptyGrid((0, 0) \<mapsto> Terrain), rnd = constant_draws 0, rpos = 0\<rparr>"
proof -
  have "(emptyGrid((0, 0) \<mapsto> Empty)) (0, 0) \<noteq> (emptyGrid((0, 0) \<mapsto> Terrain)) (0, 0)"
    by simp
  then have "emptyGrid((0, 0) \<mapsto> Empty) \<noteq> emptyGrid((0, 0) \<mapsto> Terrain)"
    by metis
  then show ?thesis by (simp add: clearCell_def)
qed

section \<open>eat\<close>

text \<open>
  C8. When the ant at index \<open>i\<close> executes \<open>eat\<close> on a cell classified food, its health
  becomes \<open>min 100 (health + 20)\<close>, which is strictly more unless it was already at the cap
  of 100, and the cell becomes empty; executing \<open>eat\<close> again on the now empty cell changes
  nothing at all.
\<close>

theorem eat_food_then_noop:
  assumes "i < length (ants s)"
    and "grid s (pos_x (ants s ! i), pos_y (ants s ! i)) = Some Food"
  shows "health (ants (processAction p i (Some Eat) s) ! i) = min 100 (health (ants s ! i) + 20) \<and>
         (health (ants s ! i) < 100 \<longrightarrow>
            health (ants s ! i) < health (ants (processAction p i (Some Eat) s) ! i)) \<and>
         grid (processAction p i (Some Eat) s) (pos_x (ants s ! i), pos_y (ants s ! i)) = Some Empty \<and>
         processAction p i (Some Eat) (processAction p i (Some Eat) s) = processAction p i (Some Eat) s"
  using assms
  by (simp add: processAction_def processEat_def getCell_def clearCell_def setAnt_def Let_def)

theorem eat_food_then_noop_witness:
  "health (ants eat_example ! 0) = 80 \<and>
   health (ants (processAction default_params 0 (Some Eat) eat_example) ! 0) = 100 \<and>
   grid (processAction default_params 0 (Some Eat) eat_example) (0, 0) = Some Empty \<and>
   processAction default_params 0 (Some Eat) (processAction default_params 0 (Some Eat) eat_example)
     = processAction default_params 0 (Some Eat) eat_example"
proof -
  have h: "0 < length (ants eat_example)"
    "grid eat_example (pos_x (ants eat_example ! 0), pos_y (ants eat_example ! 0)) = Some Food"
    by (simp_all add: eat_example_def example_ant_def)
  have e: "health (ants eat_example ! 0) = 80" "pos_x (ants eat_example ! 0) = 0"
    "pos_y (ants eat_example ! 0) = 0"
    by (simp_all add: eat_example_def example_ant_def)
  from eat_food_then_noop[OF h, of default_params] e show ?thesis by simp
qed

section \<open>processVision\<close>

lemma getCell_grid:
  assumes "getCell p cx cy s = (c, s')"
  shows "grid s' (cx, cy) = Some c \<and> grid s \<subseteq>\<^sub>m grid s' \<and> ants s' = ants s"
  using assms
  by (auto simp: getCell_def random_def Let_def map_le_def split: option.splits)

lemma findIndex_None: "(findIndex P xs = None) = (\<forall>b \<in> set xs. \<not> P b)"
  by (induction xs) auto

lemma visionLoop_values:
  assumes "visionLoop p a ds s = (vs, s')"
  shows "grid s \<subseteq>\<^sub>m grid s' \<and>
         vs = map (\<lambda>d. cell_value s s' (pos_x a + fst d, pos_y a + snd d)) ds \<and>
         (\<forall>d \<in> set ds. grid s' (pos_x a + fst d, pos_y a + snd d) \<noteq> None)"
  using assms
proof (induction ds arbitrary: s vs s')
  case Nil
  then show ?case by simp
next
  case (Cons d ds)
  obtain dx dy where d: "d = (dx, dy)" by (cases d)
  obtain c s1 where g: "getCell p (pos_x a + dx) (pos_y a + dy) s = (c, s1)"
    by (cases "getCell p (pos_x a + dx) (pos_y a + dy) s")
  obtain ws s2 where v: "visionLoop p a ds s1 = (ws, s2)"
    by (cases "visionLoop p a ds s1")
  from Cons.IH[OF v] have ih: "grid s1 \<subseteq>\<^sub>m grid s2"
    "ws = map (\<lambda>d. cell_value s1 s2 (pos_x a + fst d, pos_y a + snd d)) ds"
    "\<forall>d \<in> set ds. grid s2 (pos_x a + fst d, pos_y a + snd d) \<noteq> None"
    by auto
  from getCell_grid[OF g] have g1: "grid s1 (pos_x a + dx, pos_y a + dy) = Some c"
    and g2: "grid s \<subseteq>\<^sub>m grid s1" and g3: "ants s1 = ants s" by auto
  from g1 ih(1) have g4: "grid s2 (pos_x a + dx, pos_y a + dy) = Some c"
    by (metis domI map_le_def)
  have same: "cell_value s1 s2 = cell_value s s2"
    by (rule ext) (simp add: cell_value_def getAntAt_def g3)
  from Cons.prems d g v have s': "s' = s2"
    and vs: "vs = (if getAntAt s1 (pos_x a + dx) (pos_y a + dy) \<noteq> None then 2
                  else if c = Food then 1 else if c = Terrain then 0
                  else if c = Empty then -1 else 0) # ws"
    by (simp_all add: Let_def)
  have hd: "(if getAntAt s1 (pos_x a + dx) (pos_y a + dy) \<noteq> None then 2
             else if c = Food then 1 else if c = Terrain then 0
             else if c = Empty then -1 else 0)
            = cell_value s s2 (pos_x a + dx, pos_y a + dy)"
    using g4 by (cases c) (simp_all add: cell_value_def getAntAt_def g3)
  have le: "grid s \<subseteq>\<^sub>m grid s2" using g2 ih(1) by (rule map_le_trans)
  from vs hd have vs2: "vs = cell_value s s2 (pos_x a + dx, pos_y a + dy) # ws"
    by (simp only:)
  show ?case
    using le ih(2,3) g4 by (simp add: s' vs2 d same)
qed

text \<open>
  C3 (as the code has it). \<open>processVision\<close> returns nine values, for the cells of the 3 by 3
  neighbourhood in row-major order (\<open>dy\<close> outside, \<open>dx\<close> inside). Every one of the nine cells
  has been generated afterwards, and its value is 2 if \<open>getAntAt\<close> finds any ant on it, else
  1 for food, 0 for terrain and -1 for empty. \<open>getAntAt\<close> does not leave out the ant that is
  looking: the centre cell of an ant of the array is always 2.
\<close>

theorem processVision_encoding:
  assumes "processVision p a s = (v, s')" and "k < 9"
  shows "length v = 9 \<and>
         grid s' (pos_x a + (int (k mod 3) - 1), pos_y a + (int (k div 3) - 1)) \<noteq> None \<and>
         v ! k = (if getAntAt s (pos_x a + (int (k mod 3) - 1)) (pos_y a + (int (k div 3) - 1)) \<noteq> None then 2
                  else if grid s' (pos_x a + (int (k mod 3) - 1), pos_y a + (int (k div 3) - 1)) = Some Food then 1
                  else if grid s' (pos_x a + (int (k mod 3) - 1), pos_y a + (int (k div 3) - 1)) = Some Terrain then 0
                  else -1) \<and>
         (a \<in> set (ants s) \<longrightarrow> v ! 4 = 2)"
proof -
  from assms(1) have vl: "visionLoop p a vision_offsets s = (v, s')"
    by (simp add: processVision_def)
  note vv = visionLoop_values[OF vl]
  have off: "vision_offsets ! k = (int (k mod 3) - 1, int (k div 3) - 1)"
  proof -
    from assms(2) consider "k = 0" | "k = 1" | "k = 2" | "k = 3" | "k = 4" | "k = 5"
      | "k = 6" | "k = 7" | "k = 8" by linarith
    then show ?thesis by cases (simp_all add: vision_offsets_def)
  qed
  have len: "length vision_offsets = 9" by (simp add: vision_offsets_def)
  from vv have v: "v = map (\<lambda>d. cell_value s s' (pos_x a + fst d, pos_y a + snd d)) vision_offsets"
    by simp
  have l: "length v = 9" by (simp add: v len)
  have vk: "v ! k = cell_value s s' (pos_x a + (int (k mod 3) - 1), pos_y a + (int (k div 3) - 1))"
    using assms(2) by (simp add: v len off)
  have mem: "vision_offsets ! k \<in> set vision_offsets"
    using assms(2) len by (metis nth_mem)
  with vv have ne: "grid s' (pos_x a + (int (k mod 3) - 1), pos_y a + (int (k div 3) - 1)) \<noteq> None"
    by (metis off fst_conv snd_conv)
  have centre: "a \<in> set (ants s) \<longrightarrow> v ! 4 = 2"
  proof
    assume "a \<in> set (ants s)"
    then have "getAntAt s (pos_x a) (pos_y a) \<noteq> None"
      by (auto simp: getAntAt_def findIndex_None)
    then show "v ! 4 = 2"
      by (simp add: v vision_offsets_def cell_value_def)
  qed
  from l vk ne centre show ?thesis by (simp add: cell_value_def)
qed

theorem processVision_encoding_witness:
  "length (fst (processVision default_params (example_ant 0 0 3 80 Adult) lone_example)) = 9 \<and>
   fst (processVision default_params (example_ant 0 0 3 80 Adult) lone_example) ! 4 = 2 \<and>
   grid (snd (processVision default_params (example_ant 0 0 3 80 Adult) lone_example)) (0, 0)
     = Some Food"
proof -
  have h: "processVision default_params (example_ant 0 0 3 80 Adult) lone_example
           = (fst (processVision default_params (example_ant 0 0 3 80 Adult) lone_example),
              snd (processVision default_params (example_ant 0 0 3 80 Adult) lone_example))"
    by simp
  have k: "(4::nat) < 9" by simp
  have m: "example_ant 0 0 3 80 Adult \<in> set (ants lone_example)"
    by (simp add: lone_example_def)
  have g: "grid (snd (processVision default_params (example_ant 0 0 3 80 Adult) lone_example)) (0, 0)
           = Some Food"
    by (simp add: eval_defs)
  from processVision_encoding[OF h k] m g show ?thesis by simp
qed

text \<open>
  A single adult on a food cell: the code stores 2 for the centre, where the sentence of the
  specification (2 only for another organism) gives 1.
\<close>

theorem processVision_centre_counterexample:
  "fst (processVision default_params (example_ant 0 0 3 80 Adult) lone_example) = [1, 1, 1, 1, 2, 1, 1, 1, 1] \<and>
   claimed_vision (example_ant 0 0 3 80 Adult)
     (snd (processVision default_params (example_ant 0 0 3 80 Adult) lone_example)) = [1, 1, 1, 1, 1, 1, 1, 1, 1]"
  by (simp add: claimed_vision_def lone_example_def eval_defs)

section \<open>Crossover\<close>

lemma mutateRow_bounds:
  assumes "mutateRow g l s = (l', s')" and "\<forall>n. 0 \<le> rnd s n \<and> rnd s n < 1" and "0 \<le> g"
  shows "length l' = length l \<and> rnd s' = rnd s \<and>
         (\<forall>j < length l. l ! j - g / 2 \<le> l' ! j \<and> l' ! j \<le> l ! j + g / 2)"
  using assms
proof (induction l arbitrary: s l' s')
  case Nil
  then show ?case by simp
next
  case (Cons v vs)
  obtain ws s2 where m: "mutateRow g vs (s\<lparr>rpos := rpos s + 1\<rparr>) = (ws, s2)"
    by (cases "mutateRow g vs (s\<lparr>rpos := rpos s + 1\<rparr>)")
  from Cons.prems(1) m have l': "l' = (v + (rnd s (rpos s) - 1 / 2) * g) # ws" and s': "s' = s2"
    by (simp_all add: random_def Let_def)
  from Cons.prems(2) have r: "\<forall>n. 0 \<le> rnd (s\<lparr>rpos := rpos s + 1\<rparr>) n \<and> rnd (s\<lparr>rpos := rpos s + 1\<rparr>) n < 1"
    by simp
  from Cons.IH[OF m r Cons.prems(3)]
  have ih: "length ws = length vs" "rnd s2 = rnd s"
    "\<forall>j < length vs. vs ! j - g / 2 \<le> ws ! j \<and> ws ! j \<le> vs ! j + g / 2"
    by simp_all
  from Cons.prems(2) have r0: "0 \<le> rnd s (rpos s)" "rnd s (rpos s) < 1" by simp_all
  have lo: "- (1 / 2) * g \<le> (rnd s (rpos s) - 1 / 2) * g"
    using r0 Cons.prems(3) by (intro mult_right_mono) simp_all
  have hi: "(rnd s (rpos s) - 1 / 2) * g \<le> (1 / 2) * g"
    using r0 Cons.prems(3) by (intro mult_right_mono) simp_all
  have h0: "v - g / 2 \<le> v + (rnd s (rpos s) - 1 / 2) * g \<and> v + (rnd s (rpos s) - 1 / 2) * g \<le> v + g / 2"
    using lo hi by simp
  show ?case
    using ih h0 by (auto simp: l' s' nth_Cons split: nat.splits)
qed

lemma mutateLayers_bounds:
  assumes "\<forall>n. 0 \<le> rnd s n \<and> rnd s n < 1" and "0 \<le> g"
  shows "\<exists>ls' s'. mutateLayers g (map Some ls) s = Inr (ls', s') \<and> rnd s' = rnd s \<and>
           map length ls' = map length ls \<and>
           (\<forall>i < length ls. \<forall>j < length (ls ! i).
              ls ! i ! j - g / 2 \<le> ls' ! i ! j \<and> ls' ! i ! j \<le> ls ! i ! j + g / 2)"
  using assms
proof (induction ls arbitrary: s)
  case Nil
  then show ?case by simp
next
  case (Cons l ls)
  obtain l' s1 where r: "mutateRow g l s = (l', s1)" by (cases "mutateRow g l s")
  note rb = mutateRow_bounds[OF r Cons.prems]
  from rb Cons.prems(1) have r1: "\<forall>n. 0 \<le> rnd s1 n \<and> rnd s1 n < 1" by simp
  from Cons.IH[OF r1 Cons.prems(2)] obtain ls' s2 where
    ih: "mutateLayers g (map Some ls) s1 = Inr (ls', s2)" "rnd s2 = rnd s1"
      "map length ls' = map length ls"
      "\<forall>i < length ls. \<forall>j < length (ls ! i).
              ls ! i ! j - g / 2 \<le> ls' ! i ! j \<and> ls' ! i ! j \<le> ls ! i ! j + g / 2"
    by blast
  have "mutateLayers g (map Some (l # ls)) s = Inr (l' # ls', s2)"
    using r ih(1) by simp
  moreover have "rnd s2 = rnd s" using ih(2) rb by simp
  moreover have "map length (l' # ls') = map length (l # ls)" using ih(3) rb by simp
  moreover have "\<forall>i < length (l # ls). \<forall>j < length ((l # ls) ! i).
              (l # ls) ! i ! j - g / 2 \<le> (l' # ls') ! i ! j \<and> (l' # ls') ! i ! j \<le> (l # ls) ! i ! j + g / 2"
    using ih(4) rb by (auto simp: nth_Cons split: nat.splits)
  ultimately show ?case by blast
qed

lemma crossLayers_Some:
  assumes "length la = n" and "length lb = n"
  shows "crossLayers la lb n = map Some (map (\<lambda>i. if even i then la ! i else lb ! i) [0..<n])"
  using assms by (auto simp: crossLayers_def jsNth_def)

lemma crossover_bounds:
  assumes "map length (weights na) = map length (weights nb)"
    and "map length (biases na) = map length (biases nb)"
    and "length (biases na) = length (weights na)"
    and "0 \<le> genomeNoise p"
    and "\<forall>n. 0 \<le> rnd s n \<and> rnd s n < 1"
  shows "\<exists>child s'. crossover p na nb s = Inr (child, s') \<and>
           map length (weights child) = map length (weights na) \<and>
           map length (biases child) = map length (biases na) \<and>
           (\<forall>i < length (weights na). \<forall>j < length (weights na ! i).
              (if even i then weights na else weights nb) ! i ! j - genomeNoise p / 2 \<le> weights child ! i ! j \<and>
              weights child ! i ! j \<le> (if even i then weights na else weights nb) ! i ! j + genomeNoise p / 2) \<and>
           (\<forall>i < length (biases na). \<forall>j < length (biases na ! i).
              (if even i then biases na else biases nb) ! i ! j - genomeNoise p / 2 \<le> biases child ! i ! j \<and>
              biases child ! i ! j \<le> (if even i then biases na else biases nb) ! i ! j + genomeNoise p / 2)"
proof -
  define n where "n = length (weights na)"
  define selw where "selw = map (\<lambda>i. if even i then weights na ! i else weights nb ! i) [0..<n]"
  define selb where "selb = map (\<lambda>i. if even i then biases na ! i else biases nb ! i) [0..<n]"
  from assms(1) have lw: "length (weights nb) = n" unfolding n_def by (metis length_map)
  from assms(2,3) have lb: "length (biases na) = n" "length (biases nb) = n"
    unfolding n_def by (metis length_map)+
  have cw: "crossLayers (weights na) (weights nb) n = map Some selw"
    unfolding selw_def by (rule crossLayers_Some) (simp_all add: n_def lw)
  have cb: "crossLayers (biases na) (biases nb) n = map Some selb"
    unfolding selb_def by (rule crossLayers_Some) (simp_all add: lb)
  from mutateLayers_bounds[OF assms(5,4), of selw] obtain w s1 where
    w: "mutateLayers (genomeNoise p) (map Some selw) s = Inr (w, s1)" "rnd s1 = rnd s"
      "map length w = map length selw"
      "\<forall>i < length selw. \<forall>j < length (selw ! i).
         selw ! i ! j - genomeNoise p / 2 \<le> w ! i ! j \<and> w ! i ! j \<le> selw ! i ! j + genomeNoise p / 2"
    by blast
  from w(2) assms(5) have r1: "\<forall>n. 0 \<le> rnd s1 n \<and> rnd s1 n < 1" by simp
  from mutateLayers_bounds[OF r1 assms(4), of selb] obtain b s2 where
    b: "mutateLayers (genomeNoise p) (map Some selb) s1 = Inr (b, s2)"
      "map length b = map length selb"
      "\<forall>i < length selb. \<forall>j < length (selb ! i).
         selb ! i ! j - genomeNoise p / 2 \<le> b ! i ! j \<and> b ! i ! j \<le> selb ! i ! j + genomeNoise p / 2"
    by blast
  have c: "crossover p na nb s = Inr (\<lparr>weights = w, biases = b\<rparr>, s2)"
    using w(1) b(1) cw cb by (simp add: crossover_def n_def[symmetric])
  have sw: "map length selw = map length (weights na)"
  proof (rule nth_equalityI)
    show "length (map length selw) = length (map length (weights na))"
      by (simp add: selw_def n_def)
  next
    fix i assume "i < length (map length selw)"
    then have i: "i < n" by (simp add: selw_def)
    with assms(1) lw have "length (weights nb ! i) = length (weights na ! i)"
      by (metis n_def nth_map)
    with i show "map length selw ! i = map length (weights na) ! i"
      by (simp add: selw_def n_def)
  qed
  have sb: "map length selb = map length (biases na)"
  proof (rule nth_equalityI)
    show "length (map length selb) = length (map length (biases na))"
      by (simp add: selb_def lb)
  next
    fix i assume "i < length (map length selb)"
    then have i: "i < n" by (simp add: selb_def)
    with assms(2) lb have "length (biases nb ! i) = length (biases na ! i)"
      by (metis nth_map)
    with i lb show "map length selb ! i = map length (biases na) ! i"
      by (simp add: selb_def)
  qed
  have selw_nth: "\<And>i. i < n \<Longrightarrow> selw ! i = (if even i then weights na else weights nb) ! i"
    by (simp add: selw_def)
  have selb_nth: "\<And>i. i < n \<Longrightarrow> selb ! i = (if even i then biases na else biases nb) ! i"
    by (simp add: selb_def)
  have lsw: "length selw = n" and lsb: "length selb = n" by (simp_all add: selw_def selb_def)
  have leni_w: "\<And>i. i < n \<Longrightarrow> length (selw ! i) = length (weights na ! i)"
    using sw lsw by (metis n_def nth_map)
  have leni_b: "\<And>i. i < n \<Longrightarrow> length (selb ! i) = length (biases na ! i)"
    using sb lsb lb by (metis nth_map)
  have bw: "\<forall>i < length (weights na). \<forall>j < length (weights na ! i).
              (if even i then weights na else weights nb) ! i ! j - genomeNoise p / 2 \<le> w ! i ! j \<and>
              w ! i ! j \<le> (if even i then weights na else weights nb) ! i ! j + genomeNoise p / 2"
    using w(4) lsw leni_w selw_nth unfolding n_def[symmetric] by metis
  have bb: "\<forall>i < length (biases na). \<forall>j < length (biases na ! i).
              (if even i then biases na else biases nb) ! i ! j - genomeNoise p / 2 \<le> b ! i ! j \<and>
              b ! i ! j \<le> (if even i then biases na else biases nb) ! i ! j + genomeNoise p / 2"
    using b(3) lsb leni_b selb_nth unfolding lb by metis
  show ?thesis
    using c w(3) b(2) sw sb bw bb by simp
qed


text \<open>
  C1. Mate resolution, at the turn of an adult \<open>i\<close> that chose \<open>mate\<close> and found the partner
  \<open>j\<close>, below the population cap. When the networks of the two parents have identical layer
  shapes (and, as the data model has it, as many bias layers as weight layers), the noise
  amount \<open>genomeNoise\<close> is not negative and the draws are in \<open>[0, 1)\<close>, the step returns and
  pushes one egg on the cell of \<open>i\<close>. The network of that egg has the layer shapes of the
  parents; each of its layers comes from the initiating ant \<open>i\<close> when its index is even and
  from the partner \<open>j\<close> when it is odd, and every weight and bias lies in
  \<open>[v - genomeNoise/2, v + genomeNoise/2]\<close> for the value \<open>v\<close> of the selected parent.
\<close>

theorem mateStep_offspring_genome:
  assumes "nextAction (ants s ! i) = Some Mate" and "stage (ants s ! i) = Adult"
    and "i \<notin> matedAnts"
    and "findPartner matedAnts s (neighbors (ants s ! i)) = Some j"
    and "real (length (ants s)) < maxAnts p"
    and "map length (weights (neuralNetwork (ants s ! i)))
           = map length (weights (neuralNetwork (ants s ! j)))"
    and "map length (biases (neuralNetwork (ants s ! i)))
           = map length (biases (neuralNetwork (ants s ! j)))"
    and "length (biases (neuralNetwork (ants s ! i))) = length (weights (neuralNetwork (ants s ! i)))"
    and "0 \<le> genomeNoise p"
    and "\<forall>n. 0 \<le> rnd s n \<and> rnd s n < 1"
  shows "\<exists>egg s'. mateStep p i matedAnts s = Inr (insert j (insert i matedAnts), s') \<and>
           ants s' = ants s @ [egg] \<and> stage egg = Egg \<and>
           pos_x egg = pos_x (ants s ! i) \<and> pos_y egg = pos_y (ants s ! i) \<and>
           map length (weights (neuralNetwork egg)) = map length (weights (neuralNetwork (ants s ! i))) \<and>
           map length (biases (neuralNetwork egg)) = map length (biases (neuralNetwork (ants s ! i))) \<and>
           (\<forall>l < length (weights (neuralNetwork (ants s ! i))).
              \<forall>k < length (weights (neuralNetwork (ants s ! i)) ! l).
                weights (neuralNetwork (ants s ! (if even l then i else j))) ! l ! k - genomeNoise p / 2
                  \<le> weights (neuralNetwork egg) ! l ! k \<and>
                weights (neuralNetwork egg) ! l ! k
                  \<le> weights (neuralNetwork (ants s ! (if even l then i else j))) ! l ! k + genomeNoise p / 2) \<and>
           (\<forall>l < length (biases (neuralNetwork (ants s ! i))).
              \<forall>k < length (biases (neuralNetwork (ants s ! i)) ! l).
                biases (neuralNetwork (ants s ! (if even l then i else j))) ! l ! k - genomeNoise p / 2
                  \<le> biases (neuralNetwork egg) ! l ! k \<and>
                biases (neuralNetwork egg) ! l ! k
                  \<le> biases (neuralNetwork (ants s ! (if even l then i else j))) ! l ! k + genomeNoise p / 2)"
proof -
  define na where "na = neuralNetwork (ants s ! i)"
  define nb where "nb = neuralNetwork (ants s ! j)"
  from crossover_bounds[OF assms(6-10)[folded na_def nb_def]] obtain child s1 where
    c: "crossover p na nb s = Inr (child, s1)"
    and shw: "map length (weights child) = map length (weights na)"
    and shb: "map length (biases child) = map length (biases na)"
    and bw: "\<forall>l < length (weights na). \<forall>k < length (weights na ! l).
              (if even l then weights na else weights nb) ! l ! k - genomeNoise p / 2 \<le> weights child ! l ! k \<and>
              weights child ! l ! k \<le> (if even l then weights na else weights nb) ! l ! k + genomeNoise p / 2"
    and bb: "\<forall>l < length (biases na). \<forall>k < length (biases na ! l).
              (if even l then biases na else biases nb) ! l ! k - genomeNoise p / 2 \<le> biases child ! l ! k \<and>
              biases child ! l ! k \<le> (if even l then biases na else biases nb) ! l ! k + genomeNoise p / 2"
    by blast
  define egg where "egg = \<lparr>pos_x = pos_x (ants s ! i), pos_y = pos_y (ants s ! i), age = 0, health = 50,
      stage = Egg, stageAge = 0, neuralNetwork = child, nextAction = None\<rparr>"
  have a: "ants s1 = ants s" using c by (rule crossover_ants)
  have m: "mateStep p i matedAnts s = Inr (insert j (insert i matedAnts), s1\<lparr>ants := ants s @ [egg]\<rparr>)"
    using assms(1-5) c a by (simp add: mateStep_def Let_def newAnt_def na_def nb_def egg_def)
  have w': "\<forall>l < length (weights na). \<forall>k < length (weights na ! l).
      weights (neuralNetwork (ants s ! (if even l then i else j))) ! l ! k - genomeNoise p / 2
        \<le> weights (neuralNetwork egg) ! l ! k \<and>
      weights (neuralNetwork egg) ! l ! k
        \<le> weights (neuralNetwork (ants s ! (if even l then i else j))) ! l ! k + genomeNoise p / 2"
  proof (intro allI impI)
    fix l k assume "l < length (weights na)" "k < length (weights na ! l)"
    with bw have "(if even l then weights na else weights nb) ! l ! k - genomeNoise p / 2 \<le> weights child ! l ! k \<and>
              weights child ! l ! k \<le> (if even l then weights na else weights nb) ! l ! k + genomeNoise p / 2"
      by blast
    then show "weights (neuralNetwork (ants s ! (if even l then i else j))) ! l ! k - genomeNoise p / 2
        \<le> weights (neuralNetwork egg) ! l ! k \<and>
      weights (neuralNetwork egg) ! l ! k
        \<le> weights (neuralNetwork (ants s ! (if even l then i else j))) ! l ! k + genomeNoise p / 2"
      by (cases "even l") (simp_all add: egg_def na_def nb_def)
  qed
  have b': "\<forall>l < length (biases na). \<forall>k < length (biases na ! l).
      biases (neuralNetwork (ants s ! (if even l then i else j))) ! l ! k - genomeNoise p / 2
        \<le> biases (neuralNetwork egg) ! l ! k \<and>
      biases (neuralNetwork egg) ! l ! k
        \<le> biases (neuralNetwork (ants s ! (if even l then i else j))) ! l ! k + genomeNoise p / 2"
  proof (intro allI impI)
    fix l k assume "l < length (biases na)" "k < length (biases na ! l)"
    with bb have "(if even l then biases na else biases nb) ! l ! k - genomeNoise p / 2 \<le> biases child ! l ! k \<and>
              biases child ! l ! k \<le> (if even l then biases na else biases nb) ! l ! k + genomeNoise p / 2"
      by blast
    then show "biases (neuralNetwork (ants s ! (if even l then i else j))) ! l ! k - genomeNoise p / 2
        \<le> biases (neuralNetwork egg) ! l ! k \<and>
      biases (neuralNetwork egg) ! l ! k
        \<le> biases (neuralNetwork (ants s ! (if even l then i else j))) ! l ! k + genomeNoise p / 2"
      by (cases "even l") (simp_all add: egg_def na_def nb_def)
  qed
  have e: "stage egg = Egg" "pos_x egg = pos_x (ants s ! i)" "pos_y egg = pos_y (ants s ! i)"
    "map length (weights (neuralNetwork egg)) = map length (weights na)"
    "map length (biases (neuralNetwork egg)) = map length (biases na)"
    using shw shb by (simp_all add: egg_def)
  have "mateStep p i matedAnts s = Inr (insert j (insert i matedAnts), s1\<lparr>ants := ants s @ [egg]\<rparr>) \<and>
        ants (s1\<lparr>ants := ants s @ [egg]\<rparr>) = ants s @ [egg] \<and> stage egg = Egg \<and>
           pos_x egg = pos_x (ants s ! i) \<and> pos_y egg = pos_y (ants s ! i) \<and>
           map length (weights (neuralNetwork egg)) = map length (weights na) \<and>
           map length (biases (neuralNetwork egg)) = map length (biases na) \<and>
           (\<forall>l < length (weights na). \<forall>k < length (weights na ! l).
      weights (neuralNetwork (ants s ! (if even l then i else j))) ! l ! k - genomeNoise p / 2
        \<le> weights (neuralNetwork egg) ! l ! k \<and>
      weights (neuralNetwork egg) ! l ! k
        \<le> weights (neuralNetwork (ants s ! (if even l then i else j))) ! l ! k + genomeNoise p / 2) \<and>
           (\<forall>l < length (biases na). \<forall>k < length (biases na ! l).
      biases (neuralNetwork (ants s ! (if even l then i else j))) ! l ! k - genomeNoise p / 2
        \<le> biases (neuralNetwork egg) ! l ! k \<and>
      biases (neuralNetwork egg) ! l ! k
        \<le> biases (neuralNetwork (ants s ! (if even l then i else j))) ! l ! k + genomeNoise p / 2)"
    using m e w' b' by simp
  then show ?thesis unfolding na_def by blast
qed

theorem mateStep_offspring_genome_witness:
  "\<exists>egg s'. mateStep default_params 0 {} courting_example = Inr ({0, 1}, s') \<and>
     ants s' = ants courting_example @ [egg] \<and> stage egg = Egg \<and>
     map length (weights (neuralNetwork egg)) = [2, 1] \<and>
     map length (biases (neuralNetwork egg)) = [2, 1] \<and>
     1 - 1 / 20 \<le> weights (neuralNetwork egg) ! 0 ! 0 \<and> weights (neuralNetwork egg) ! 0 ! 0 \<le> 1 + 1 / 20 \<and>
     7 - 1 / 20 \<le> weights (neuralNetwork egg) ! 1 ! 0 \<and> weights (neuralNetwork egg) ! 1 ! 0 \<le> 7 + 1 / 20 \<and>
     4 - 1 / 20 \<le> biases (neuralNetwork egg) ! 1 ! 0 \<and> biases (neuralNetwork egg) ! 1 ! 0 \<le> 4 + 1 / 20"
proof -
  have n: "neuralNetwork (ants courting_example ! 0) = parent_a"
    "neuralNetwork (ants courting_example ! 1) = parent_b"
    by (simp_all add: courting_example_def example_ant_def)
  have h: "nextAction (ants courting_example ! 0) = Some Mate"
    "stage (ants courting_example ! 0) = Adult"
    "0 \<notin> ({} :: nat set)"
    "findPartner {} courting_example (neighbors (ants courting_example ! 0)) = Some 1"
    "real (length (ants courting_example)) < maxAnts default_params"
    "map length (weights (neuralNetwork (ants courting_example ! 0)))
       = map length (weights (neuralNetwork (ants courting_example ! 1)))"
    "map length (biases (neuralNetwork (ants courting_example ! 0)))
       = map length (biases (neuralNetwork (ants courting_example ! 1)))"
    "length (biases (neuralNetwork (ants courting_example ! 0)))
       = length (weights (neuralNetwork (ants courting_example ! 0)))"
    "0 \<le> genomeNoise default_params"
    "\<forall>n. 0 \<le> rnd courting_example n \<and> rnd courting_example n < 1"
    by (simp_all add: courting_example_def example_ant_def neighbors_def getAntAt_def
        parent_a_def parent_b_def default_params_def constant_draws_def)
  from mateStep_offspring_genome[OF h] obtain egg s' where
    c: "mateStep default_params 0 {} courting_example = Inr (insert 1 (insert 0 {}), s')"
      "ants s' = ants courting_example @ [egg]" "stage egg = Egg"
      "map length (weights (neuralNetwork egg)) = map length (weights (neuralNetwork (ants courting_example ! 0)))"
      "map length (biases (neuralNetwork egg)) = map length (biases (neuralNetwork (ants courting_example ! 0)))"
      "\<forall>l < length (weights (neuralNetwork (ants courting_example ! 0))).
         \<forall>k < length (weights (neuralNetwork (ants courting_example ! 0)) ! l).
           weights (neuralNetwork (ants courting_example ! (if even l then 0 else 1))) ! l ! k
             - genomeNoise default_params / 2 \<le> weights (neuralNetwork egg) ! l ! k \<and>
           weights (neuralNetwork egg) ! l ! k
             \<le> weights (neuralNetwork (ants courting_example ! (if even l then 0 else 1))) ! l ! k
               + genomeNoise default_params / 2"
      "\<forall>l < length (biases (neuralNetwork (ants courting_example ! 0))).
         \<forall>k < length (biases (neuralNetwork (ants courting_example ! 0)) ! l).
           biases (neuralNetwork (ants courting_example ! (if even l then 0 else 1))) ! l ! k
             - genomeNoise default_params / 2 \<le> biases (neuralNetwork egg) ! l ! k \<and>
           biases (neuralNetwork egg) ! l ! k
             \<le> biases (neuralNetwork (ants courting_example ! (if even l then 0 else 1))) ! l ! k
               + genomeNoise default_params / 2"
    by (elim exE conjE)
  from c(6)[rule_format, of 0 0] c(6)[rule_format, of 1 0] c(7)[rule_format, of 1 0]
  have "1 - 1 / 20 \<le> weights (neuralNetwork egg) ! 0 ! 0 \<and> weights (neuralNetwork egg) ! 0 ! 0 \<le> 1 + 1 / 20 \<and>
     7 - 1 / 20 \<le> weights (neuralNetwork egg) ! 1 ! 0 \<and> weights (neuralNetwork egg) ! 1 ! 0 \<le> 7 + 1 / 20 \<and>
     4 - 1 / 20 \<le> biases (neuralNetwork egg) ! 1 ! 0 \<and> biases (neuralNetwork egg) ! 1 ! 0 \<le> 4 + 1 / 20"
    by (simp add: courting_example_def example_ant_def parent_a_def parent_b_def default_params_def)
  moreover have "map length (weights (neuralNetwork egg)) = [2, 1]"
    "map length (biases (neuralNetwork egg)) = [2, 1]"
    using c(4,5) by (simp_all add: n parent_a_def parent_b_def)
  moreover have "insert 1 (insert 0 {}) = ({0, 1} :: nat set)" by auto
  ultimately show ?thesis using c(1,2,3) by auto
qed

section \<open>The population cap\<close>

lemma mateStep_length:
  assumes "mateStep p i m s = Inr (m', s')"
  shows "length (ants s') = length (ants s) \<or>
         (real (length (ants s)) < maxAnts p \<and> length (ants s') = length (ants s) + 1)"
  using assms
  by (auto simp: mateStep_def newAnt_def Let_def
      split: if_splits option.splits sum.splits prod.splits dest!: crossover_ants)

lemma processAsexual_length:
  "length (ants (processAsexual p i s)) = length (ants s) \<or>
   (real (length (ants s)) < maxAnts p \<and> length (ants (processAsexual p i s)) = length (ants s) + 1)"
proof (cases "real (length (ants s)) < maxAnts p")
  case True
  define s1 where "s1 = setAnt i ((ants s ! i)\<lparr>health := health (ants s ! i) / 2\<rparr>) s"
  obtain egg s2 where n: "newAnt (pos_x (ants s1 ! i)) (pos_y (ants s1 ! i)) None None s1 = (egg, s2)"
    by (cases "newAnt (pos_x (ants s1 ! i)) (pos_y (ants s1 ! i)) None None s1")
  have "length (ants s1) = length (ants s)" by (simp add: s1_def setAnt_def)
  with newAnt_ants[OF n] True n show ?thesis
    by (simp add: processAsexual_def Let_def s1_def[symmetric])
next
  case False
  then show ?thesis by (simp add: processAsexual_def)
qed

lemma processAction_length:
  "length (ants (processAction p i act s)) = length (ants s) \<or>
   (real (length (ants s)) < maxAnts p \<and> length (ants (processAction p i act s)) = length (ants s) + 1)"
proof -
  have "map nextAction (ants (processAction p i act s)) = map nextAction (ants s) \<or> act = Some Asexual"
    using processAction_nextActions[of p i act s] by blast
  then show ?thesis
  proof
    assume "map nextAction (ants (processAction p i act s)) = map nextAction (ants s)"
    then show ?thesis by (metis length_map)
  next
    assume "act = Some Asexual"
    then show ?thesis using processAsexual_length[of p i s] by (simp add: processAction_def)
  qed
qed

lemma ageStep_length: "length (ants (ageStep p i s)) = length (ants s)"
  using ageStep_nextActions[of p i s] by (metis length_map)

lemma actStep_length:
  "length (ants (actStep p i s)) = length (ants s) \<or>
   (real (length (ants s)) < maxAnts p \<and> length (ants (actStep p i s)) = length (ants s) + 1)"
  using processAction_length[of p i "nextAction (ants s ! i)" s]
  by (auto simp: actStep_def Let_def ageStep_length)

lemma phase1_length: "phase1 p i s = Inr s' \<Longrightarrow> length (ants s') = length (ants s)"
proof (induction p i s rule: phase1.induct)
  case (1 p i s)
  show ?case
  proof (cases "i < length (ants s)")
    case True
    with "1.prems" obtain act s1 where d: "decideAction p (ants s ! i) s = Inr (act, s1)"
      and r: "phase1 p (i + 1) (setAnt i ((ants s1 ! i)\<lparr>nextAction := act\<rparr>) s1) = Inr s'"
      by (subst (asm) phase1.simps) (auto split: sum.splits)
    from "1.IH"[OF True d refl r] decideAction_ants[OF d] show ?thesis
      by (simp add: setAnt_def)
  next
    case False
    with "1.prems" show ?thesis by (subst (asm) phase1.simps) simp
  qed
qed

lemma phase2_length:
  "phase2 p i m s = Inr s' \<Longrightarrow>
   length (ants s') = length (ants s) \<or>
   (i < length (ants s) \<and> length (ants s) \<le> length (ants s') \<and> real (length (ants s')) < maxAnts p + 1)"
proof (induction p i m s rule: phase2.induct)
  case (1 p i m s)
  show ?case
  proof (cases "i < length (ants s)")
    case True
    with "1.prems" obtain m1 s1 where d: "mateStep p i m s = Inr (m1, s1)"
      and r: "phase2 p (i + 1) m1 s1 = Inr s'"
      by (subst (asm) phase2.simps) (auto split: sum.splits)
    from "1.IH"[OF True d refl r] mateStep_length[OF d] True show ?thesis
      by auto
  next
    case False
    with "1.prems" show ?thesis by (subst (asm) phase2.simps) simp
  qed
qed

lemma phase3_length:
  "length (ants (phase3 p i s)) = length (ants s) \<or>
   (i < length (ants s) \<and> length (ants s) \<le> length (ants (phase3 p i s)) \<and>
    real (length (ants (phase3 p i s))) < maxAnts p + 1)"
proof (induction p i s rule: phase3.induct)
  case (1 p i s)
  show ?case
  proof (cases "i < length (ants s)")
    case True
    then have e: "phase3 p i s = phase3 p (i + 1) (actStep p i s)"
      by (subst phase3.simps) simp
    from "1.IH"[OF True] actStep_length[of p i s] True show ?thesis
      unfolding e by auto
  next
    case False
    then show ?thesis by (subst phase3.simps) simp
  qed
qed

text \<open>
  C4. With a cap \<open>maxAnts \<ge> 0\<close>, the population after a tick is at most \<open>maxAnts\<close> plus the
  population at the start of the tick; more precisely it is at most the population at the
  start, or below \<open>maxAnts + 1\<close>. Both reproduction paths (the mating step and \<open>asexual\<close>)
  insert an offspring only when the population was below \<open>maxAnts\<close> before the insertion.
\<close>

theorem update_population_bound:
  assumes "update p s = Inr s'" and "0 \<le> maxAnts p"
  shows "real (length (ants s')) \<le> maxAnts p + real (length (ants s)) \<and>
         (length (ants s') \<le> length (ants s) \<or> real (length (ants s')) < maxAnts p + 1) \<and>
         (\<forall>i m s1 m' s2. mateStep p i m s1 = Inr (m', s2) \<longrightarrow> length (ants s2) \<noteq> length (ants s1) \<longrightarrow>
            real (length (ants s1)) < maxAnts p) \<and>
         (\<forall>i s1. length (ants (processAsexual p i s1)) \<noteq> length (ants s1) \<longrightarrow>
            real (length (ants s1)) < maxAnts p)"
proof -
  from assms(1) obtain s1 s2 where p1: "phase1 p 0 s = Inr s1" and p2: "phase2 p 0 {} s1 = Inr s2"
    and s': "s' = cull (phase3 p 0 s2)"
    by (auto simp: update_def update_phases_def split: sum.splits)
  define n0 where "n0 = length (ants s)"
  define n3 where "n3 = length (ants (phase3 p 0 s2))"
  have l1: "length (ants s1) = n0" using phase1_length[OF p1] by (simp add: n0_def)
  have c: "length (ants s') \<le> n3"
    by (simp add: s' cull_def n3_def)
  from phase2_length[OF p2] l1
  have l2: "length (ants s2) = n0 \<or> (0 < n0 \<and> real (length (ants s2)) < maxAnts p + 1)"
    by auto
  from phase3_length[of p 0 s2]
  have l3: "n3 = length (ants s2) \<or> (0 < length (ants s2) \<and> length (ants s2) \<le> n3 \<and> real n3 < maxAnts p + 1)"
    by (simp add: n3_def)
  from l2 l3 have l: "n3 = n0 \<or> (0 < n0 \<and> real n3 < maxAnts p + 1)"
  proof (elim disjE)
    assume "0 < length (ants s2) \<and> length (ants s2) \<le> n3 \<and> real n3 < maxAnts p + 1"
      and "length (ants s2) = n0"
    then show ?thesis by simp
  next
    assume a: "0 < length (ants s2) \<and> length (ants s2) \<le> n3 \<and> real n3 < maxAnts p + 1"
      and b: "0 < n0 \<and> real (length (ants s2)) < maxAnts p + 1"
    then show ?thesis by simp
  qed auto
  have a: "real (length (ants s')) \<le> maxAnts p + real n0"
    using l c assms(2) by auto
  have b: "length (ants s') \<le> n0 \<or> real (length (ants s')) < maxAnts p + 1"
    using l c by auto
  have m: "\<forall>i m s1 m' s2. mateStep p i m s1 = Inr (m', s2) \<longrightarrow> length (ants s2) \<noteq> length (ants s1) \<longrightarrow>
            real (length (ants s1)) < maxAnts p"
    using mateStep_length by blast
  have x: "\<forall>i s1. length (ants (processAsexual p i s1)) \<noteq> length (ants s1) \<longrightarrow>
            real (length (ants s1)) < maxAnts p"
    using processAsexual_length by blast
  from a b m x show ?thesis unfolding n0_def by blast
qed

theorem update_population_bound_witness:
  "\<exists>s'. update default_params mating_example = Inr s' \<and> length (ants s') = 3 \<and>
     length (ants mating_example) = 2 \<and>
     real (length (ants s')) \<le> maxAnts default_params + real (length (ants mating_example))"
proof -
  have "\<exists>s'. update default_params mating_example = Inr s' \<and> length (ants s') = 3"
    by (simp add: eval_defs)
  then obtain s' where u: "update default_params mating_example = Inr s'" "length (ants s') = 3"
    by blast
  have m: "0 \<le> maxAnts default_params" by (simp add: default_params_def)
  have l: "length (ants mating_example) = 2" by (simp add: mating_example_def)
  from update_population_bound[OF u(1) m] u l show ?thesis by blast
qed

section \<open>What a step of the third loop may change\<close>

text \<open>
  No operation changes the sequence of draws, only the number of values drawn. The turn of the
  ant at index \<open>i\<close> changes another ant at most in its health (\<open>frame\<close>), and the first
  two loops leave every field of an ant but \<open>nextAction\<close> as it was.
\<close>

lemma getCell_rnd: "getCell p cx cy s = (c, s') \<Longrightarrow> rnd s' = rnd s"
  by (auto simp: getCell_def random_def Let_def split: option.splits)

lemma randomArray_rnd: "randomArray n s = (l, s') \<Longrightarrow> rnd s' = rnd s"
  by (induction n arbitrary: s l s') (auto simp: random_def Let_def split: prod.splits)

lemma randomLayers_rnd: "randomLayers n s = (ls, s') \<Longrightarrow> rnd s' = rnd s"
  by (induction n arbitrary: s ls s')
     (auto simp: Let_def simp del: randomArray.simps split: prod.splits dest!: randomArray_rnd)

lemma newAnt_rnd: "newAnt ax ay nn st s = (a, s') \<Longrightarrow> rnd s' = rnd s"
  by (auto simp: newAnt_def randomWeights_def randomBiases_def Let_def
      split: option.splits prod.splits dest!: randomLayers_rnd)

lemma newAnt_fields:
  "newAnt ax ay nn None s = (a, s') \<Longrightarrow>
   pos_x a = ax \<and> pos_y a = ay \<and> age a = 0 \<and> stageAge a = 0 \<and> stage a = Egg \<and> nextAction a = None"
  by (auto simp: newAnt_def Let_def split: option.splits prod.splits)

lemma nth_update_if: "xs[i := v] ! j = (if i = j \<and> i < length xs then v else xs ! j)"
  by (cases "i < length xs") (simp_all add: nth_list_update list_update_beyond)

lemma frame_refl: "frame i s s"
  by (simp add: frame_def)

lemma move_frame:
  "frame i s (case getCell p nx ny s of
                (c, s1) \<Rightarrow> if c = Terrain then s1
                            else setAnt i ((ants s1 ! i)\<lparr>pos_x := nx, pos_y := ny\<rparr>) s1)"
proof -
  obtain c s1 where g: "getCell p nx ny s = (c, s1)" by (cases "getCell p nx ny s")
  from getCell_ants[OF g] getCell_rnd[OF g] show ?thesis
    by (simp add: g frame_def setAnt_def nth_update_if)
qed

lemma processMove_frame: "frame i s (processMove p i act s)"
  unfolding processMove_def Let_def by (rule move_frame)

lemma processEat_frame: "frame i s (processEat p i s)"
proof -
  obtain c s1 where g: "getCell p (pos_x (ants s ! i)) (pos_y (ants s ! i)) s = (c, s1)"
    by (cases "getCell p (pos_x (ants s ! i)) (pos_y (ants s ! i)) s")
  from getCell_ants[OF g] getCell_rnd[OF g] g show ?thesis
    by (simp add: processEat_def Let_def frame_def setAnt_def clearCell_def nth_update_if)
qed

lemma processSleep_frame: "frame i s (processSleep i s)"
  by (simp add: processSleep_def frame_def setAnt_def nth_update_if)

lemma processAttack_frame: "frame i s (processAttack p i s)"
  by (simp add: processAttack_def frame_def setAnt_def nth_update_if Let_def split: option.splits)

lemma processAsexual_frame: "frame i s (processAsexual p i s)"
proof (cases "real (length (ants s)) < maxAnts p")
  case True
  define s1 where "s1 = setAnt i ((ants s ! i)\<lparr>health := health (ants s ! i) / 2\<rparr>) s"
  obtain egg s2 where n: "newAnt (pos_x (ants s1 ! i)) (pos_y (ants s1 ! i)) None None s1 = (egg, s2)"
    by (cases "newAnt (pos_x (ants s1 ! i)) (pos_y (ants s1 ! i)) None None s1")
  have a1: "ants s1 = (ants s)[i := (ants s ! i)\<lparr>health := health (ants s ! i) / 2\<rparr>]"
    and r1: "rnd s1 = rnd s"
    by (simp_all add: s1_def setAnt_def)
  have e: "processAsexual p i s =
      s2\<lparr>ants := ants s2 @ [egg\<lparr>neuralNetwork := \<lparr>weights = weights (neuralNetwork (ants s1 ! i)),
                                            biases = biases (neuralNetwork (ants s1 ! i))\<rparr>,
                        stage := Egg, stageAge := 0, health := 50\<rparr>]\<rparr>"
    using True n by (simp add: processAsexual_def Let_def s1_def[symmetric])
  from newAnt_ants[OF n] newAnt_rnd[OF n] a1 r1 show ?thesis
    by (simp add: e frame_def nth_append nth_update_if)
next
  case False
  then show ?thesis by (simp add: processAsexual_def frame_refl)
qed

lemma processAction_frame: "frame i s (processAction p i act s)"
  by (simp add: processAction_def processMove_frame processEat_frame processSleep_frame
      processAttack_frame processAsexual_frame frame_refl split: option.splits action.splits)

lemma keep_fields:
  "b\<lparr>health := 0\<rparr> = a\<lparr>health := 0\<rparr> \<Longrightarrow>
   pos_x b = pos_x a \<and> pos_y b = pos_y a \<and> age b = age a \<and> stage b = stage a \<and>
   stageAge b = stageAge a \<and> nextAction b = nextAction a \<and> neuralNetwork b = neuralNetwork a"
  by (cases a, cases b) simp

lemma keep_fields_self:
  "b\<lparr>health := 0, pos_x := 0, pos_y := 0\<rparr> = a\<lparr>health := 0, pos_x := 0, pos_y := 0\<rparr> \<Longrightarrow>
   age b = age a \<and> stage b = stage a \<and>
   stageAge b = stageAge a \<and> nextAction b = nextAction a \<and> neuralNetwork b = neuralNetwork a"
  by (cases a, cases b) simp

lemma ageStep_other: "j \<noteq> i \<Longrightarrow> ants (ageStep p i s) ! j = ants s ! j"
  by (simp add: ageStep_def Let_def setAnt_def random_def)

lemma ageStep_rnd: "rnd (ageStep p i s) = rnd s"
  by (simp add: ageStep_def Let_def setAnt_def random_def)

lemma actStep_rnd: "rnd (actStep p i s) = rnd s"
  using processAction_frame[of i s p "nextAction (ants s ! i)"]
  by (simp add: actStep_def Let_def ageStep_rnd frame_def)

lemma actStep_mono: "length (ants s) \<le> length (ants (actStep p i s))"
  using actStep_length[of p i s] by auto

lemma actStep_other:
  assumes "j < length (ants s)" and "j \<noteq> i"
  shows "(ants (actStep p i s) ! j)\<lparr>health := 0\<rparr> = (ants s ! j)\<lparr>health := 0\<rparr>"
  using assms processAction_frame[of i s p "nextAction (ants s ! i)"]
  by (simp add: actStep_def Let_def ageStep_other frame_def)

lemma actStep_split: "actStep p i s = ageStep p i (actOnly p i s)"
  by (simp add: actStep_def actOnly_def Let_def)

lemma actOnly_frame: "frame i s (actOnly p i s)"
  by (simp add: actOnly_def Let_def processAction_frame frame_refl)

lemma ageStep_jitter_old:
  assumes "i < length (ants s)" and "stage (ants s ! i) = Adult"
    and "antLifespan p + (rnd s (rpos s) - 1 / 2) * (5 / 100) \<le> real (age (ants s ! i)) + 1"
  shows "stage (ants (ageStep p i s) ! i) = Old"
proof -
  from assms(3)
  have "antLifespan p + (rnd s (rpos s) - 1 / 2) * (5 / 100) \<le> real (age (ants s ! i) + 1)"
    by simp
  with assms(1,2) show ?thesis
    by (simp add: ageStep_def Let_def setAnt_def random_def)
qed

lemma fold_actStep_length:
  "length (ants s) \<le> length (ants (fold (actStep p) [0..<k] s))"
proof (induction k)
  case 0
  show ?case by simp
next
  case (Suc k)
  from actStep_mono[of "fold (actStep p) [0..<k] s" p k] Suc show ?case by simp
qed

lemma fold_actStep_other:
  assumes "j < length (ants s)" and "k \<le> j"
  shows "(ants (fold (actStep p) [0..<k] s) ! j)\<lparr>health := 0\<rparr> = (ants s ! j)\<lparr>health := 0\<rparr>"
  using assms(2)
proof (induction k)
  case 0
  show ?case by simp
next
  case (Suc k)
  have l: "j < length (ants (fold (actStep p) [0..<k] s))"
    using assms(1) fold_actStep_length[of s p k] by simp
  from Suc.prems have "j \<noteq> k" by simp
  from actStep_other[OF l this, of p] Suc show ?case by simp
qed

lemma phase3_from:
  "k \<le> length (ants s) \<Longrightarrow> phase3 p 0 s = phase3 p k (fold (actStep p) [0..<k] s)"
proof (induction k)
  case 0
  show ?case by simp
next
  case (Suc k)
  have "k < length (ants (fold (actStep p) [0..<k] s))"
    using Suc.prems fold_actStep_length[of s p k] by simp
  then have "phase3 p k (fold (actStep p) [0..<k] s)
      = phase3 p (Suc k) (actStep p k (fold (actStep p) [0..<k] s))"
    by (subst phase3.simps) simp
  with Suc show ?case by simp
qed

lemma phase3_keeps:
  "j < i \<Longrightarrow> j < length (ants s) \<Longrightarrow>
   j < length (ants (phase3 p i s)) \<and>
   (ants (phase3 p i s) ! j)\<lparr>health := 0\<rparr> = (ants s ! j)\<lparr>health := 0\<rparr>"
proof (induction p i s rule: phase3.induct)
  case (1 p i s)
  show ?case
  proof (cases "i < length (ants s)")
    case True
    then have e: "phase3 p i s = phase3 p (i + 1) (actStep p i s)"
      by (subst phase3.simps) simp
    have a: "j < length (ants (actStep p i s))"
      using "1.prems"(2) actStep_mono[of s p i] by simp
    from "1.prems"(1) have "j \<noteq> i" "j < i + 1" by simp_all
    from "1.IH"[OF True this(2) a] actStep_other[OF "1.prems"(2) this(1), of p]
    show ?thesis by (simp add: e)
  next
    case False
    with "1.prems" show ?thesis by (subst (1 2) phase3.simps) simp
  qed
qed

lemma visionLoop_rnd: "visionLoop p a ds s = (vs, s') \<Longrightarrow> rnd s' = rnd s"
proof (induction ds arbitrary: s vs s')
  case Nil
  then show ?case by simp
next
  case (Cons d ds)
  obtain dx dy where d: "d = (dx, dy)" by (cases d)
  obtain c s1 where g: "getCell p (pos_x a + dx) (pos_y a + dy) s = (c, s1)"
    by (cases "getCell p (pos_x a + dx) (pos_y a + dy) s")
  obtain ws s2 where v: "visionLoop p a ds s1 = (ws, s2)"
    by (cases "visionLoop p a ds s1")
  from Cons.prems d g v have "s' = s2" by (simp add: Let_def)
  with Cons.IH[OF v] getCell_rnd[OF g] show ?case by simp
qed

lemma decideAction_rnd: "decideAction p a s = Inr (act, s') \<Longrightarrow> rnd s' = rnd s"
  by (auto simp: decideAction_def processVision_def random_def Let_def
      split: if_splits prod.splits sum.splits dest: visionLoop_rnd)

lemma phase1_frame:
  "phase1 p i s = Inr s' \<Longrightarrow>
   rnd s' = rnd s \<and> length (ants s') = length (ants s) \<and>
   (\<forall>j. (ants s' ! j)\<lparr>nextAction := None\<rparr> = (ants s ! j)\<lparr>nextAction := None\<rparr>)"
proof (induction p i s rule: phase1.induct)
  case (1 p i s)
  show ?case
  proof (cases "i < length (ants s)")
    case True
    with "1.prems" obtain act s1 where d: "decideAction p (ants s ! i) s = Inr (act, s1)"
      and r: "phase1 p (i + 1) (setAnt i ((ants s1 ! i)\<lparr>nextAction := act\<rparr>) s1) = Inr s'"
      by (subst (asm) phase1.simps) (auto split: sum.splits)
    from "1.IH"[OF True d refl r] decideAction_ants[OF d] decideAction_rnd[OF d] show ?thesis
      by (simp add: setAnt_def nth_update_if)
  next
    case False
    with "1.prems" show ?thesis by (subst (asm) phase1.simps) simp
  qed
qed

lemma mutateRow_rnd: "mutateRow g l s = (l', s') \<Longrightarrow> rnd s' = rnd s"
  by (induction l arbitrary: s l' s') (auto simp: random_def Let_def split: prod.splits)

lemma mutateLayers_rnd: "mutateLayers g ls s = Inr (ls', s') \<Longrightarrow> rnd s' = rnd s"
proof (induction g ls s arbitrary: ls' s' rule: mutateLayers.induct)
  case (3 g l ls s)
  then show ?case
    by (auto simp: Let_def split: prod.splits sum.splits dest: mutateRow_rnd)
qed auto

lemma crossover_rnd: "crossover p na nb s = Inr (nn, s') \<Longrightarrow> rnd s' = rnd s"
  by (auto simp: crossover_def Let_def split: sum.splits dest!: mutateLayers_rnd)

lemma mateStep_frame:
  assumes "mateStep p i m s = Inr (m', s')"
  shows "rnd s' = rnd s \<and> (\<exists>eggs. ants s' = ants s @ eggs)"
proof (cases "nextAction (ants s ! i) = Some Mate \<and> stage (ants s ! i) = Adult \<and> i \<notin> m")
  case False
  with assms show ?thesis by (auto simp: mateStep_def Let_def)
next
  case True
  show ?thesis
  proof (cases "findPartner m s (neighbors (ants s ! i))")
    case None
    with assms True show ?thesis by (simp add: mateStep_def Let_def)
  next
    case (Some j)
    show ?thesis
    proof (cases "real (length (ants s)) < maxAnts p")
      case False
      with assms True Some show ?thesis by (simp add: mateStep_def Let_def)
    next
      case lt: True
      show ?thesis
      proof (cases "crossover p (neuralNetwork (ants s ! i)) (neuralNetwork (ants s ! j)) s")
        case (Inl e)
        with assms True Some lt show ?thesis by (simp add: mateStep_def Let_def)
      next
        case (Inr r)
        obtain nn s1 where r: "r = (nn, s1)" by (cases r)
        from assms True Some lt Inr r have "rnd s' = rnd s1 \<and> (\<exists>egg. ants s' = ants s1 @ [egg])"
          by (auto simp: mateStep_def Let_def newAnt_def)
        with crossover_ants[OF Inr[unfolded r]] crossover_rnd[OF Inr[unfolded r]] show ?thesis
          by auto
      qed
    qed
  qed
qed

lemma phase2_frame:
  "phase2 p i m s = Inr s' \<Longrightarrow>
   rnd s' = rnd s \<and> (\<exists>eggs. ants s' = ants s @ eggs)"
proof (induction p i m s rule: phase2.induct)
  case (1 p i m s)
  show ?case
  proof (cases "i < length (ants s)")
    case True
    with "1.prems" obtain m1 s1 where d: "mateStep p i m s = Inr (m1, s1)"
      and r: "phase2 p (i + 1) m1 s1 = Inr s'"
      by (subst (asm) phase2.simps) (auto split: sum.splits)
    from "1.IH"[OF True d refl r] obtain e1 where ih: "rnd s' = rnd s1" "ants s' = ants s1 @ e1"
      by blast
    from mateStep_frame[OF d] obtain e0 where m: "rnd s1 = rnd s" "ants s1 = ants s @ e0"
      by blast
    from ih m have "ants s' = ants s @ (e0 @ e1)" by simp
    with ih m show ?thesis by metis
  next
    case False
    with "1.prems" show ?thesis by (subst (asm) phase2.simps) simp
  qed
qed

lemma cull_drops_old: "stage a = Old \<Longrightarrow> a \<notin> set (ants (cull s))"
  by (simp add: cull_def)

lemma cull_shorter:
  assumes "a \<in> set (ants s)" and "stage a = Old"
  shows "length (ants (cull s)) < length (ants s)"
proof -
  have "length (filter (\<lambda>a. 0 < health a \<and> stage a \<noteq> Old) (ants s)) < length (ants s)"
    using assms by (intro length_filter_less[of a]) simp_all
  then show ?thesis by (simp add: cull_def)
qed

section \<open>Reaching the lifespan\<close>

text \<open>
  C2 (as the code has it). The threshold of the stage \<open>old\<close> is
  \<open>antLifespan + (Math.random() - 0.5) * 0.05\<close>, with a draw of its own for each adult.
  When the draw of the lifespan test of an adult with \<open>age = antLifespan - 1\<close> is at most
  \<open>1/2\<close> (so that its jitter is not positive), whatever the other draws of the tick are,
  the adult becomes \<open>old\<close> in the third loop and is removed by the filters that end the
  tick: the ant at its index is not among the survivors, and the array is shorter after
  the filters.
\<close>

theorem adult_at_lifespan_removed:
  assumes "update_phases p s = Inr s3"
    and "j < length (ants s)" and "stage (ants s ! j) = Adult"
    and "real (age (ants s ! j)) = antLifespan p - 1"
    and "jitterDraw p j s = Some r" and "r \<le> 1 / 2"
  shows "update p s = Inr (cull s3) \<and> j < length (ants s3) \<and> stage (ants s3 ! j) = Old \<and>
         ants s3 ! j \<notin> set (ants (cull s3)) \<and> length (ants (cull s3)) < length (ants s3)"
proof -
  from assms(1) obtain s1 s2 where p1: "phase1 p 0 s = Inr s1" and p2: "phase2 p 0 {} s1 = Inr s2"
    and s3: "s3 = phase3 p 0 s2"
    by (auto simp: update_phases_def split: sum.splits)
  define t where "t = fold (actStep p) [0..<j] s2"
  define t' where "t' = actOnly p j t"
  from assms(5) p1 p2 have r: "r = rnd t' (rpos t')"
    by (simp add: jitterDraw_def Let_def t_def t'_def)
  from phase1_frame[OF p1] have f1: "length (ants s1) = length (ants s)"
    "(ants s1 ! j)\<lparr>nextAction := None\<rparr> = (ants s ! j)\<lparr>nextAction := None\<rparr>"
    by simp_all
  have a1: "stage (ants s1 ! j) = stage (ants s ! j) \<and> age (ants s1 ! j) = age (ants s ! j)"
    using f1(2) by (cases "ants s1 ! j", cases "ants s ! j") simp
  from phase2_frame[OF p2] obtain eggs where f2: "ants s2 = ants s1 @ eggs"
    by blast
  from f2 assms(2) f1(1)
  have a2: "ants s2 ! j = ants s1 ! j" "j < length (ants s2)" by (simp_all add: nth_append)
  have lt: "j < length (ants t)"
    using a2(2) fold_actStep_length[of s2 p j] by (simp add: t_def)
  from fold_actStep_other[OF a2(2) order_refl, of p]
  have at: "stage (ants t ! j) = Adult" "age (ants t ! j) = age (ants s ! j)"
    using a2(1) a1 assms(3) by (auto simp: t_def dest: keep_fields)
  have f: "frame j t t'" unfolding t'_def by (rule actOnly_frame)
  with lt have lt': "j < length (ants t')"
    and at': "stage (ants t' ! j) = stage (ants t ! j)" "age (ants t' ! j) = age (ants t ! j)"
    by (auto simp: frame_def dest: keep_fields_self)
  from assms(6) have "(r - 1 / 2) * (5 / 100) \<le> 0" by simp
  with assms(4) have jit: "antLifespan p + (rnd t' (rpos t') - 1 / 2) * (5 / 100)
      \<le> real (age (ants t' ! j)) + 1"
    by (simp add: r[symmetric] at' at)
  have old: "stage (ants (actStep p j t) ! j) = Old"
    unfolding actStep_split t'_def[symmetric]
    by (rule ageStep_jitter_old[OF lt' _ jit]) (simp add: at' at)
  have lu: "j < length (ants (actStep p j t))"
    using lt actStep_mono[of t p j] by simp
  have "phase3 p 0 s2 = phase3 p j t"
    unfolding t_def by (rule phase3_from) (use a2(2) in simp)
  also have "\<dots> = phase3 p (Suc j) (actStep p j t)" using lt by (subst phase3.simps) simp
  finally have e: "s3 = phase3 p (Suc j) (actStep p j t)" by (simp add: s3)
  from phase3_keeps[OF lessI lu, of p]
  have o: "j < length (ants s3)" "stage (ants s3 ! j) = Old"
    using old by (auto simp: e dest: keep_fields)
  have u: "update p s = Inr (cull s3)" using assms(1) by (simp add: update_def)
  have n: "ants s3 ! j \<notin> set (ants (cull s3))" using o(2) by (rule cull_drops_old)
  have "ants s3 ! j \<in> set (ants s3)" using o(1) by simp
  then have l: "length (ants (cull s3)) < length (ants s3)" using o(2) by (rule cull_shorter)
  from u o n l show ?thesis by simp
qed

theorem adult_at_lifespan_removed_witness:
  "\<exists>s3. rnd jitter_example 0 = 3 / 4 \<and>
     jitterDraw default_params 0 jitter_example = Some (1 / 4) \<and>
     update_phases default_params jitter_example = Inr s3 \<and>
     update default_params jitter_example = Inr (cull s3) \<and>
     stage (ants s3 ! 0) = Old \<and> length (ants s3) = 1 \<and> length (ants (cull s3)) = 0"
proof -
  have "\<exists>s3. update_phases default_params jitter_example = Inr s3 \<and> length (ants s3) = 1"
    by (simp add: eval_defs)
  then obtain s3 where u: "update_phases default_params jitter_example = Inr s3"
    and l: "length (ants s3) = 1" by blast
  have d: "jitterDraw default_params 0 jitter_example = Some (1 / 4)"
    by (simp add: eval_defs)
  have h: "0 < length (ants jitter_example)"
    "stage (ants jitter_example ! 0) = Adult"
    "real (age (ants jitter_example ! 0)) = antLifespan default_params - 1"
    by (simp_all add: jitter_example_def example_ant_def default_params_def)
  have r: "(1 / 4 :: real) \<le> 1 / 2" by simp
  have z: "rnd jitter_example 0 = 3 / 4" by (simp add: jitter_example_def)
  from adult_at_lifespan_removed[OF u h d r] l u d z show ?thesis by auto
qed

text \<open>
  With every draw \<open>3/4\<close> the jitter is positive: the adult of age \<open>antLifespan - 1 = 499\<close>
  is still in the array after the tick, as an adult of age 500.
\<close>

theorem adult_at_lifespan_counterexample:
  "real (age (ants (lifespan_example (3 / 4)) ! 0)) = antLifespan default_params - 1 \<and>
   stage (ants (lifespan_example (3 / 4)) ! 0) = Adult \<and>
   \<not> isl (update default_params (lifespan_example (3 / 4))) \<and>
   map stage (ants (projr (update default_params (lifespan_example (3 / 4))))) = [Adult] \<and>
   map age (ants (projr (update default_params (lifespan_example (3 / 4))))) = [500] \<and>
   map health (ants (projr (update default_params (lifespan_example (3 / 4))))) = [84]"
proof -
  have a: "real (age (ants (lifespan_example (3 / 4)) ! 0)) = antLifespan default_params - 1 \<and>
     stage (ants (lifespan_example (3 / 4)) ! 0) = Adult"
    by (simp add: lifespan_example_def example_ant_def default_params_def)
  have "\<exists>s'. update default_params (lifespan_example (3 / 4)) = Inr s' \<and>
          map stage (ants s') = [Adult] \<and> map age (ants s') = [500] \<and> map health (ants s') = [84]"
    by (simp add: eval_defs)
  then have b: "\<not> isl (update default_params (lifespan_example (3 / 4))) \<and>
     map stage (ants (projr (update default_params (lifespan_example (3 / 4))))) = [Adult] \<and>
     map age (ants (projr (update default_params (lifespan_example (3 / 4))))) = [500] \<and>
     map health (ants (projr (update default_params (lifespan_example (3 / 4))))) = [84]"
    by auto
  from a b show ?thesis by blast
qed

section \<open>The eggs of a tick\<close>

lemma findIndex_first:
  "findIndex P xs = Some j \<Longrightarrow> j < length xs \<and> P (xs ! j) \<and> (\<forall>k < j. \<not> P (xs ! k))"
proof (induction xs arbitrary: j)
  case Nil
  then show ?case by simp
next
  case (Cons a as)
  show ?case
  proof (cases "P a")
    case True
    with Cons.prems show ?thesis by simp
  next
    case False
    with Cons.prems obtain j' where j: "findIndex P as = Some j'" "j = Suc j'" by auto
    from Cons.IH[OF j(1)] False j(2) show ?thesis
      by (auto simp: nth_Cons split: nat.splits)
  qed
qed

lemma getAntAt_first:
  assumes "getAntAt s cx cy = Some j"
  shows "j < length (ants s) \<and>
         (\<forall>k < j. \<not> (pos_x (ants s ! k) = pos_x (ants s ! j) \<and> pos_y (ants s ! k) = pos_y (ants s ! j)))"
  using findIndex_first[OF assms[unfolded getAntAt_def]] by auto

lemma attackTarget_first:
  assumes "attackTarget s cx cy = Some j"
  shows "j < length (ants s) \<and>
         (\<forall>k < j. \<not> (pos_x (ants s ! k) = pos_x (ants s ! j) \<and> pos_y (ants s ! k) = pos_y (ants s ! j)))"
proof -
  from assms have "getAntAt s cx (cy - 1) = Some j \<or> getAntAt s cx (cy + 1) = Some j \<or>
                   getAntAt s (cx - 1) cy = Some j \<or> getAntAt s (cx + 1) cy = Some j"
    by (auto simp: attackTarget_def split: option.splits)
  then show ?thesis using getAntAt_first by blast
qed

text \<open>Only an attack touches another ant, and only its target.\<close>

lemma processMove_other: "j \<noteq> i \<Longrightarrow> ants (processMove p i act s) ! j = ants s ! j"
proof -
  assume n: "j \<noteq> i"
  have "\<And>nx ny. ants (case getCell p nx ny s of
                (c, s1) \<Rightarrow> if c = Terrain then s1
                            else setAnt i ((ants s1 ! i)\<lparr>pos_x := nx, pos_y := ny\<rparr>) s1) ! j = ants s ! j"
  proof -
    fix nx ny
    obtain c s1 where g: "getCell p nx ny s = (c, s1)" by (cases "getCell p nx ny s")
    from getCell_ants[OF g] n show "ants (case getCell p nx ny s of
                (c, s1) \<Rightarrow> if c = Terrain then s1
                            else setAnt i ((ants s1 ! i)\<lparr>pos_x := nx, pos_y := ny\<rparr>) s1) ! j = ants s ! j"
      by (simp add: g setAnt_def)
  qed
  then show ?thesis unfolding processMove_def Let_def by blast
qed

lemma processEat_other: "j \<noteq> i \<Longrightarrow> ants (processEat p i s) ! j = ants s ! j"
proof -
  assume n: "j \<noteq> i"
  obtain c s1 where g: "getCell p (pos_x (ants s ! i)) (pos_y (ants s ! i)) s = (c, s1)"
    by (cases "getCell p (pos_x (ants s ! i)) (pos_y (ants s ! i)) s")
  from getCell_ants[OF g] g n show ?thesis
    by (simp add: processEat_def Let_def setAnt_def clearCell_def)
qed

lemma processSleep_other: "j \<noteq> i \<Longrightarrow> ants (processSleep i s) ! j = ants s ! j"
  by (simp add: processSleep_def setAnt_def)

lemma processAsexual_other:
  "j \<noteq> i \<Longrightarrow> j < length (ants s) \<Longrightarrow> ants (processAsexual p i s) ! j = ants s ! j"
proof (cases "real (length (ants s)) < maxAnts p")
  case True
  assume n: "j \<noteq> i" and l: "j < length (ants s)"
  define s1 where "s1 = setAnt i ((ants s ! i)\<lparr>health := health (ants s ! i) / 2\<rparr>) s"
  obtain egg s2 where e: "newAnt (pos_x (ants s1 ! i)) (pos_y (ants s1 ! i)) None None s1 = (egg, s2)"
    by (cases "newAnt (pos_x (ants s1 ! i)) (pos_y (ants s1 ! i)) None None s1")
  have a1: "ants s1 = (ants s)[i := (ants s ! i)\<lparr>health := health (ants s ! i) / 2\<rparr>]"
    by (simp add: s1_def setAnt_def)
  from newAnt_ants[OF e] a1 True e n l show ?thesis
    by (simp add: processAsexual_def Let_def s1_def[symmetric] nth_append)
next
  case False
  then show ?thesis by (simp add: processAsexual_def)
qed

lemma processAttack_other_health:
  assumes "j \<noteq> i" and "health (ants (processAttack p i s) ! j) \<noteq> health (ants s ! j)"
  shows "attackTarget s (pos_x (ants s ! i)) (pos_y (ants s ! i)) = Some j"
  using assms
  by (auto simp: processAttack_def Let_def setAnt_def nth_update_if split: option.splits if_splits)

lemma processAction_other_health:
  assumes "j \<noteq> i" and "j < length (ants s)"
    and "health (ants (processAction p i act s) ! j) \<noteq> health (ants s ! j)"
  shows "attackTarget s (pos_x (ants s ! i)) (pos_y (ants s ! i)) = Some j"
proof (cases "act = Some Attack")
  case True
  with assms show ?thesis by (simp add: processAction_def processAttack_other_health)
next
  case False
  with assms(1,2) have "ants (processAction p i act s) ! j = ants s ! j"
    by (simp add: processAction_def processMove_other processEat_other processSleep_other
        processAsexual_other split: option.splits action.splits)
  with assms(3) show ?thesis by simp
qed

text \<open>Only a movement changes the position of the acting ant.\<close>

lemma processAction_self_pos:
  assumes "i < length (ants s)" and "act \<notin> {Some Up, Some Down, Some Left, Some Right}"
  shows "pos_x (ants (processAction p i act s) ! i) = pos_x (ants s ! i) \<and>
         pos_y (ants (processAction p i act s) ! i) = pos_y (ants s ! i)"
proof -
  have eat: "pos_x (ants (processEat p i s) ! i) = pos_x (ants s ! i) \<and>
             pos_y (ants (processEat p i s) ! i) = pos_y (ants s ! i)"
  proof -
    obtain c s1 where g: "getCell p (pos_x (ants s ! i)) (pos_y (ants s ! i)) s = (c, s1)"
      by (cases "getCell p (pos_x (ants s ! i)) (pos_y (ants s ! i)) s")
    from getCell_ants[OF g] g assms(1) show ?thesis
      by (simp add: processEat_def Let_def setAnt_def clearCell_def)
  qed
  have sleep: "pos_x (ants (processSleep i s) ! i) = pos_x (ants s ! i) \<and>
               pos_y (ants (processSleep i s) ! i) = pos_y (ants s ! i)"
    using assms(1) by (simp add: processSleep_def setAnt_def)
  have attack: "pos_x (ants (processAttack p i s) ! i) = pos_x (ants s ! i) \<and>
                pos_y (ants (processAttack p i s) ! i) = pos_y (ants s ! i)"
    using assms(1)
    by (simp add: processAttack_def Let_def setAnt_def nth_update_if split: option.splits)
  have asexual: "pos_x (ants (processAsexual p i s) ! i) = pos_x (ants s ! i) \<and>
                 pos_y (ants (processAsexual p i s) ! i) = pos_y (ants s ! i)"
  proof (cases "real (length (ants s)) < maxAnts p")
    case True
    define s1 where "s1 = setAnt i ((ants s ! i)\<lparr>health := health (ants s ! i) / 2\<rparr>) s"
    obtain egg s2 where e: "newAnt (pos_x (ants s1 ! i)) (pos_y (ants s1 ! i)) None None s1 = (egg, s2)"
      by (cases "newAnt (pos_x (ants s1 ! i)) (pos_y (ants s1 ! i)) None None s1")
    have a1: "ants s1 = (ants s)[i := (ants s ! i)\<lparr>health := health (ants s ! i) / 2\<rparr>]"
      by (simp add: s1_def setAnt_def)
    from newAnt_ants[OF e] a1 True e assms(1) show ?thesis
      by (simp add: processAsexual_def Let_def s1_def[symmetric] nth_append)
  next
    case False
    then show ?thesis by (simp add: processAsexual_def)
  qed
  from assms(2) eat sleep attack asexual show ?thesis
    by (simp add: processAction_def split: option.splits action.splits)
qed

lemma ageStep_pos:
  "pos_x (ants (ageStep p i s) ! i) = pos_x (ants s ! i) \<and>
   pos_y (ants (ageStep p i s) ! i) = pos_y (ants s ! i)"
  by (simp add: ageStep_def Let_def setAnt_def random_def nth_update_if)

lemma ageStep_newborn:
  assumes "i < length (ants s)" and "newborn (ants s ! i)"
  shows "aged_once p (ants (ageStep p i s) ! i)"
  using assms
  by (simp add: ageStep_def Let_def setAnt_def random_def newborn_def aged_once_def)

lemma actStep_no_action:
  "nextAction (ants s ! i) = None \<Longrightarrow> actStep p i s = ageStep p i s"
  by (simp add: actStep_def processAction_def)

lemma actStep_self_pos:
  assumes "i < length (ants s)"
    and "nextAction (ants s ! i) \<notin> {Some Up, Some Down, Some Left, Some Right}"
  shows "pos_x (ants (actStep p i s) ! i) = pos_x (ants s ! i) \<and>
         pos_y (ants (actStep p i s) ! i) = pos_y (ants s ! i)"
  using processAction_self_pos[OF assms, of p] ageStep_pos
  by (simp add: actStep_def Let_def)

lemma actStep_other_health:
  assumes "j \<noteq> i" and "j < length (ants s)"
    and "health (ants (actStep p i s) ! j) \<noteq> health (ants s ! j)"
  shows "attackTarget s (pos_x (ants s ! i)) (pos_y (ants s ! i)) = Some j"
proof (cases "nextAction (ants s ! i) = Some Mate")
  case True
  with assms show ?thesis by (simp add: actStep_def ageStep_other)
next
  case False
  with assms(1,3) have "health (ants (processAction p i (nextAction (ants s ! i)) s) ! j) \<noteq> health (ants s ! j)"
    by (simp add: actStep_def Let_def ageStep_other)
  from processAction_other_health[OF assms(1,2) this] show ?thesis .
qed

lemma processAsexual_push:
  assumes "length (ants (processAsexual p i s)) \<noteq> length (ants s)"
  shows "length (ants (processAsexual p i s)) = length (ants s) + 1 \<and>
         newborn (ants (processAsexual p i s) ! length (ants s)) \<and>
         pos_x (ants (processAsexual p i s) ! length (ants s)) = pos_x (ants s ! i) \<and>
         pos_y (ants (processAsexual p i s) ! length (ants s)) = pos_y (ants s ! i)"
proof (cases "real (length (ants s)) < maxAnts p")
  case True
  define s1 where "s1 = setAnt i ((ants s ! i)\<lparr>health := health (ants s ! i) / 2\<rparr>) s"
  obtain egg s2 where e: "newAnt (pos_x (ants s1 ! i)) (pos_y (ants s1 ! i)) None None s1 = (egg, s2)"
    by (cases "newAnt (pos_x (ants s1 ! i)) (pos_y (ants s1 ! i)) None None s1")
  have a1: "ants s1 = (ants s)[i := (ants s ! i)\<lparr>health := health (ants s ! i) / 2\<rparr>]"
    by (simp add: s1_def setAnt_def)
  have p1: "pos_x (ants s1 ! i) = pos_x (ants s ! i) \<and> pos_y (ants s1 ! i) = pos_y (ants s ! i)"
    by (simp add: a1 nth_update_if)
  from newAnt_ants[OF e] newAnt_fields[OF e] a1 p1 True e show ?thesis
    by (simp add: processAsexual_def Let_def s1_def[symmetric] nth_append newborn_def)
next
  case False
  with assms show ?thesis by (simp add: processAsexual_def)
qed

lemma actStep_push:
  assumes "i < length (ants s)" and "length (ants (actStep p i s)) \<noteq> length (ants s)"
  shows "nextAction (ants s ! i) = Some Asexual \<and>
         length (ants (actStep p i s)) = length (ants s) + 1 \<and>
         newborn (ants (actStep p i s) ! length (ants s)) \<and>
         pos_x (ants (actStep p i s) ! length (ants s)) = pos_x (ants s ! i) \<and>
         pos_y (ants (actStep p i s) ! length (ants s)) = pos_y (ants s ! i)"
proof -
  from actStep_nextActions[of p i s] assms(2) have a: "nextAction (ants s ! i) = Some Asexual"
    by (metis length_map)
  then have e: "actStep p i s = ageStep p i (processAsexual p i s)"
    by (simp add: actStep_def processAction_def)
  with assms(2) have n: "length (ants (processAsexual p i s)) \<noteq> length (ants s)"
    by (simp add: ageStep_length)
  have o: "ants (ageStep p i (processAsexual p i s)) ! length (ants s)
           = ants (processAsexual p i s) ! length (ants s)"
    using assms(1) by (intro ageStep_other) simp
  from o processAsexual_push[OF n] a show ?thesis by (simp add: e ageStep_length)
qed

lemma untouched:
  assumes "b\<lparr>health := 0\<rparr> = a\<lparr>health := 0\<rparr>" and "health b = health a"
  shows "b = a"
  using assms by (cases a, cases b) simp

lemma actStep_born_inv:
  assumes inv: "born_inv p n0 i s" and i: "i < length (ants s)"
  shows "born_inv p n0 (i + 1) (actStep p i s)"
  unfolding born_inv_def
proof (intro allI impI)
  fix j
  define s' where "s' = actStep p i s"
  assume "n0 \<le> j \<and> j < length (ants (actStep p i s))"
  then have j: "n0 \<le> j" "j < length (ants s')" by (simp_all add: s'_def)
  have goal: "(\<exists>k < j. pos_x (ants s' ! k) = pos_x (ants s' ! j) \<and> pos_y (ants s' ! k) = pos_y (ants s' ! j) \<and>
                 (k < i + 1 \<or> nextAction (ants s' ! k) = Some Mate)) \<and>
        (if j < i + 1 then aged_once p (ants s' ! j) else newborn (ants s' ! j))"
  proof (cases "j < length (ants s)")
    case True
    with inv j(1) obtain k where k: "k < j"
      "pos_x (ants s ! k) = pos_x (ants s ! j)" "pos_y (ants s ! k) = pos_y (ants s ! j)"
      "k < i \<or> nextAction (ants s ! k) = Some Mate"
      and st: "if j < i then aged_once p (ants s ! j) else newborn (ants s ! j)"
      unfolding born_inv_def by blast
    from st have naj: "nextAction (ants s ! j) = None"
      by (auto simp: aged_once_def newborn_def split: if_splits)
    have kl: "k < length (ants s)" using k(1) True by simp
    \<comment> \<open>the egg and the ant under it stay where they are\<close>
    have pj: "pos_x (ants s' ! j) = pos_x (ants s ! j) \<and> pos_y (ants s' ! j) = pos_y (ants s ! j)"
    proof (cases "j = i")
      case True
      with naj actStep_self_pos[OF i, of p] show ?thesis by (simp add: s'_def)
    next
      case False
      from keep_fields[OF actStep_other[OF True False, of p]] show ?thesis by (simp add: s'_def)
    qed
    have pk: "pos_x (ants s' ! k) = pos_x (ants s ! k) \<and> pos_y (ants s' ! k) = pos_y (ants s ! k)"
    proof (cases "k = i")
      case True
      with k(4) have "nextAction (ants s ! i) = Some Mate" by simp
      with True actStep_self_pos[OF i, of p] show ?thesis by (simp add: s'_def)
    next
      case False
      from keep_fields[OF actStep_other[OF kl False, of p]] show ?thesis by (simp add: s'_def)
    qed
    have fk: "k < i + 1 \<or> nextAction (ants s' ! k) = Some Mate"
    proof (cases "k = i")
      case True
      then show ?thesis by simp
    next
      case False
      from keep_fields[OF actStep_other[OF kl False, of p]] k(4) show ?thesis by (auto simp: s'_def)
    qed
    \<comment> \<open>no attack reaches the egg: the target of an attack is the first ant on its cell\<close>
    have same: "j \<noteq> i \<Longrightarrow> ants s' ! j = ants s ! j"
    proof -
      assume ne: "j \<noteq> i"
      have "health (ants s' ! j) = health (ants s ! j)"
      proof (rule ccontr)
        assume "health (ants s' ! j) \<noteq> health (ants s ! j)"
        then have "attackTarget s (pos_x (ants s ! i)) (pos_y (ants s ! i)) = Some j"
          unfolding s'_def by (intro actStep_other_health[OF ne True])
        from attackTarget_first[OF this]
        have "\<not> (pos_x (ants s ! k) = pos_x (ants s ! j) \<and> pos_y (ants s ! k) = pos_y (ants s ! j))"
          using k(1) by simp
        with k(2,3) show False by simp
      qed
      with actStep_other[OF True ne, of p] show ?thesis
        unfolding s'_def by (rule_tac untouched) simp_all
    qed
    have stj: "if j < i + 1 then aged_once p (ants s' ! j) else newborn (ants s' ! j)"
    proof (cases "j = i")
      case True
      with st have nb: "newborn (ants s ! i)" by simp
      then have "nextAction (ants s ! i) = None" by (simp add: newborn_def)
      then have "s' = ageStep p i s" by (simp add: s'_def actStep_no_action)
      with ageStep_newborn[OF i nb, of p] True show ?thesis by simp
    next
      case False
      with same have e: "ants s' ! j = ants s ! j" by simp
      from False have "(j < i + 1) = (j < i)" by auto
      with st e show ?thesis by simp
    qed
    have "k < j \<and> pos_x (ants s' ! k) = pos_x (ants s' ! j) \<and> pos_y (ants s' ! k) = pos_y (ants s' ! j) \<and>
                 (k < i + 1 \<or> nextAction (ants s' ! k) = Some Mate)"
      using k(1,2,3) pj pk fk by simp
    then have "\<exists>k < j. pos_x (ants s' ! k) = pos_x (ants s' ! j) \<and> pos_y (ants s' ! k) = pos_y (ants s' ! j) \<and>
                 (k < i + 1 \<or> nextAction (ants s' ! k) = Some Mate)"
      by (intro exI[of _ k])
    with stj show ?thesis by (intro conjI)
  next
    case False
    with j(2) have ne: "length (ants (actStep p i s)) \<noteq> length (ants s)"
      by (auto simp: s'_def)
    from actStep_push[OF i ne] have a: "nextAction (ants s ! i) = Some Asexual"
      and l: "length (ants s') = length (ants s) + 1"
      and nb: "newborn (ants s' ! length (ants s))"
      and pe: "pos_x (ants s' ! length (ants s)) = pos_x (ants s ! i)"
        "pos_y (ants s' ! length (ants s)) = pos_y (ants s ! i)"
      by (simp_all add: s'_def)
    from False j(2) l have je: "j = length (ants s)" by simp
    from a actStep_self_pos[OF i, of p]
    have pi: "pos_x (ants s' ! i) = pos_x (ants s ! i) \<and> pos_y (ants s' ! i) = pos_y (ants s ! i)"
      by (simp add: s'_def)
    have "i < j \<and> pos_x (ants s' ! i) = pos_x (ants s' ! j) \<and> pos_y (ants s' ! i) = pos_y (ants s' ! j) \<and>
          (i < i + 1 \<or> nextAction (ants s' ! i) = Some Mate)"
      using i je pe pi by simp
    moreover have "if j < i + 1 then aged_once p (ants s' ! j) else newborn (ants s' ! j)"
      using i je nb by simp
    ultimately show ?thesis by (intro conjI exI[of _ i]) simp_all
  qed
  then show "(\<exists>k < j. pos_x (ants (actStep p i s) ! k) = pos_x (ants (actStep p i s) ! j) \<and>
                 pos_y (ants (actStep p i s) ! k) = pos_y (ants (actStep p i s) ! j) \<and>
                 (k < i + 1 \<or> nextAction (ants (actStep p i s) ! k) = Some Mate)) \<and>
        (if j < i + 1 then aged_once p (ants (actStep p i s) ! j) else newborn (ants (actStep p i s) ! j))"
    unfolding s'_def .
qed

lemma phase3_born:
  assumes "born_inv p n0 i s" and "n0 \<le> j" and "j < length (ants (phase3 p i s))"
  shows "aged_once p (ants (phase3 p i s) ! j)"
  using assms
proof (induction p i s rule: phase3.induct)
  case (1 p i s)
  show ?case
  proof (cases "i < length (ants s)")
    case True
    then have e: "phase3 p i s = phase3 p (i + 1) (actStep p i s)"
      by (subst phase3.simps) simp
    from "1.IH"[OF True actStep_born_inv[OF "1.prems"(1) True] "1.prems"(2)] "1.prems"(3)
    show ?thesis by (simp add: e)
  next
    case False
    then have e: "phase3 p i s = s" by (subst phase3.simps) simp
    with "1.prems" False show ?thesis by (auto simp: born_inv_def)
  qed
qed

lemma mateStep_push:
  assumes "mateStep p i m s = Inr (m', s')"
  shows "ants s' = ants s \<or>
         (nextAction (ants s ! i) = Some Mate \<and>
          (\<exists>egg. ants s' = ants s @ [egg] \<and> newborn egg \<and>
                 pos_x egg = pos_x (ants s ! i) \<and> pos_y egg = pos_y (ants s ! i)))"
proof (cases "nextAction (ants s ! i) = Some Mate \<and> stage (ants s ! i) = Adult \<and> i \<notin> m")
  case False
  with assms show ?thesis by (auto simp: mateStep_def Let_def)
next
  case True
  show ?thesis
  proof (cases "findPartner m s (neighbors (ants s ! i))")
    case None
    with assms True show ?thesis by (simp add: mateStep_def Let_def)
  next
    case (Some j)
    show ?thesis
    proof (cases "real (length (ants s)) < maxAnts p")
      case False
      with assms True Some show ?thesis by (simp add: mateStep_def Let_def)
    next
      case lt: True
      show ?thesis
      proof (cases "crossover p (neuralNetwork (ants s ! i)) (neuralNetwork (ants s ! j)) s")
        case (Inl e)
        with assms True Some lt show ?thesis by (simp add: mateStep_def Let_def)
      next
        case (Inr r)
        obtain nn s1 where r: "r = (nn, s1)" by (cases r)
        from assms True Some lt Inr r
        have "\<exists>egg. ants s' = ants s1 @ [egg] \<and> newborn egg \<and>
                 pos_x egg = pos_x (ants s ! i) \<and> pos_y egg = pos_y (ants s ! i)"
          by (auto simp: mateStep_def Let_def newAnt_def newborn_def)
        with crossover_ants[OF Inr[unfolded r]] True show ?thesis
          by auto
      qed
    qed
  qed
qed

lemma mateStep_born_inv:
  assumes "mateStep p i m s = Inr (m', s')" and "i < length (ants s)" and "born_inv p n0 0 s"
  shows "born_inv p n0 0 s'"
proof -
  from mateStep_push[OF assms(1)] show ?thesis
  proof
    assume "ants s' = ants s"
    with assms(3) show ?thesis by (simp add: born_inv_def)
  next
    assume "nextAction (ants s ! i) = Some Mate \<and>
          (\<exists>egg. ants s' = ants s @ [egg] \<and> newborn egg \<and>
                 pos_x egg = pos_x (ants s ! i) \<and> pos_y egg = pos_y (ants s ! i))"
    then obtain egg where m: "nextAction (ants s ! i) = Some Mate" and e: "ants s' = ants s @ [egg]"
      and nb: "newborn egg" and pe: "pos_x egg = pos_x (ants s ! i)" "pos_y egg = pos_y (ants s ! i)"
      by blast
    show ?thesis
      unfolding born_inv_def
    proof (intro allI impI)
      fix j
      assume "n0 \<le> j \<and> j < length (ants s')"
      then have j: "n0 \<le> j" "j < length (ants s) + 1" by (simp_all add: e)
      show "(\<exists>k<j. pos_x (ants s' ! k) = pos_x (ants s' ! j) \<and> pos_y (ants s' ! k) = pos_y (ants s' ! j) \<and>
                 (k < 0 \<or> nextAction (ants s' ! k) = Some Mate)) \<and>
            (if j < 0 then aged_once p (ants s' ! j) else newborn (ants s' ! j))"
      proof (cases "j < length (ants s)")
        case True
        with assms(3) j(1) obtain k where k: "k < j"
          "pos_x (ants s ! k) = pos_x (ants s ! j)" "pos_y (ants s ! k) = pos_y (ants s ! j)"
          "nextAction (ants s ! k) = Some Mate" and st: "newborn (ants s ! j)"
          unfolding born_inv_def by auto
        from k(1) True have "ants s' ! k = ants s ! k" "ants s' ! j = ants s ! j"
          by (simp_all add: e nth_append)
        with k st show ?thesis by (intro conjI exI[of _ k]) simp_all
      next
        case False
        with j(2) have je: "j = length (ants s)" by simp
        with assms(2) have "ants s' ! i = ants s ! i" "ants s' ! j = egg"
          by (simp_all add: e nth_append)
        with m nb pe assms(2) je show ?thesis by (intro conjI exI[of _ i]) simp_all
      qed
    qed
  qed
qed

lemma phase2_born:
  "phase2 p i m s = Inr s' \<Longrightarrow> born_inv p n0 0 s \<Longrightarrow> born_inv p n0 0 s'"
proof (induction p i m s rule: phase2.induct)
  case (1 p i m s)
  show ?case
  proof (cases "i < length (ants s)")
    case True
    with "1.prems" obtain m1 s1 where d: "mateStep p i m s = Inr (m1, s1)"
      and r: "phase2 p (i + 1) m1 s1 = Inr s'"
      by (subst (asm) phase2.simps) (auto split: sum.splits)
    from "1.IH"[OF True d refl r mateStep_born_inv[OF d True "1.prems"(2)]] show ?thesis .
  next
    case False
    with "1.prems" show ?thesis by (subst (asm) phase2.simps) simp
  qed
qed

text \<open>
  C10 (as the code has it). The ants from index \<open>length (ants s)\<close> on in the array before
  the filters are the offspring pushed during the tick, by mating or by \<open>asexual\<close>. The third
  loop visits each of them in that same tick: its age and stageAge are 1 and it has paid the
  upkeep. When \<open>eggToAdultTicks > 1\<close> it ends the tick as an egg with health 49 and survives
  the filters; when \<open>eggToAdultTicks \<le> 1\<close> it hatches in that same turn and its health is
  100. No attack of the tick reaches it, since \<open>getAntAt\<close> finds its parent first.
\<close>

theorem offspring_aged_in_birth_tick:
  assumes "update_phases p s = Inr s3" and "length (ants s) \<le> j" and "j < length (ants s3)"
  shows "update p s = Inr (cull s3) \<and> age (ants s3 ! j) = 1 \<and> stageAge (ants s3 ! j) = 1 \<and>
         (if eggToAdultTicks p \<le> 1 then health (ants s3 ! j) = 100 \<and> stage (ants s3 ! j) \<noteq> Egg
          else health (ants s3 ! j) = 49 \<and> stage (ants s3 ! j) = Egg \<and>
               ants s3 ! j \<in> set (ants (cull s3)))"
proof -
  from assms(1) obtain s1 s2 where p1: "phase1 p 0 s = Inr s1" and p2: "phase2 p 0 {} s1 = Inr s2"
    and s3: "s3 = phase3 p 0 s2"
    by (auto simp: update_phases_def split: sum.splits)
  define n0 where "n0 = length (ants s)"
  from phase1_frame[OF p1] have l1: "length (ants s1) = n0" by (simp add: n0_def)
  then have "born_inv p n0 0 s1" by (auto simp: born_inv_def)
  from phase2_born[OF p2 this] have "born_inv p n0 0 s2" .
  from phase3_born[OF this, of j] assms(2,3) have a: "aged_once p (ants s3 ! j)"
    by (simp add: s3 n0_def)
  have u: "update p s = Inr (cull s3)" using assms(1) by (simp add: update_def)
  have m: "ants s3 ! j \<in> set (ants s3)" using assms(3) by simp
  show ?thesis
  proof (cases "eggToAdultTicks p \<le> 1")
    case True
    with a u show ?thesis by (simp add: aged_once_def)
  next
    case False
    with a have h: "health (ants s3 ! j) = 49" "stage (ants s3 ! j) = Egg"
      by (simp_all add: aged_once_def)
    with m have "ants s3 ! j \<in> set (ants (cull s3))" by (simp add: cull_def)
    with a u False h show ?thesis by (simp add: aged_once_def)
  qed
qed

theorem offspring_aged_in_birth_tick_witness:
  "\<exists>s3 t3. update_phases default_params mating_example = Inr s3 \<and>
     length (ants mating_example) = 2 \<and> length (ants s3) = 3 \<and>
     age (ants s3 ! 2) = 1 \<and> stageAge (ants s3 ! 2) = 1 \<and> health (ants s3 ! 2) = 49 \<and>
     stage (ants s3 ! 2) = Egg \<and> ants s3 ! 2 \<in> set (ants (cull s3)) \<and>
     update_phases default_params asexual_example = Inr t3 \<and>
     length (ants asexual_example) = 1 \<and> length (ants t3) = 2 \<and>
     age (ants t3 ! 1) = 1 \<and> stageAge (ants t3 ! 1) = 1 \<and> health (ants t3 ! 1) = 49 \<and>
     stage (ants t3 ! 1) = Egg \<and> ants t3 ! 1 \<in> set (ants (cull t3))"
proof -
  have "\<exists>s3. update_phases default_params mating_example = Inr s3 \<and> length (ants s3) = 3"
    by (simp add: eval_defs)
  then obtain s3 where s: "update_phases default_params mating_example = Inr s3"
    "length (ants s3) = 3" by blast
  have "\<exists>t3. update_phases default_params asexual_example = Inr t3 \<and> length (ants t3) = 2"
    by (simp add: eval_defs randomWeights_def randomBiases_def eval_nat_numeral)
  then obtain t3 where t: "update_phases default_params asexual_example = Inr t3"
    "length (ants t3) = 2" by blast
  have l: "length (ants mating_example) = 2" "length (ants asexual_example) = 1"
    by (simp_all add: mating_example_def asexual_example_def)
  have e: "\<not> eggToAdultTicks default_params \<le> 1" by (simp add: default_params_def)
  have hs: "length (ants mating_example) \<le> 2" "2 < length (ants s3)" using l s by simp_all
  have ht: "length (ants asexual_example) \<le> 1" "1 < length (ants t3)" using l t by simp_all
  from offspring_aged_in_birth_tick[OF s(1) hs] offspring_aged_in_birth_tick[OF t(1) ht] e s t l
  show ?thesis by (intro exI[of _ s3] exI[of _ t3]) simp
qed

text \<open>
  With \<open>eggToAdultTicks = 1\<close> the egg of the two mating adults hatches in its birth tick: it
  ends the tick as an adult with health 100, not with health 49.
\<close>

theorem offspring_hatching_counterexample:
  "length (ants mating_example) = 2 \<and>
   \<not> isl (update (default_params\<lparr>eggToAdultTicks := 1\<rparr>) mating_example) \<and>
   length (ants (projr (update (default_params\<lparr>eggToAdultTicks := 1\<rparr>) mating_example))) = 3 \<and>
   age (ants (projr (update (default_params\<lparr>eggToAdultTicks := 1\<rparr>) mating_example)) ! 2) = 1 \<and>
   stage (ants (projr (update (default_params\<lparr>eggToAdultTicks := 1\<rparr>) mating_example)) ! 2) = Adult \<and>
   health (ants (projr (update (default_params\<lparr>eggToAdultTicks := 1\<rparr>) mating_example)) ! 2) = 100"
proof -
  have a: "length (ants mating_example) = 2" by (simp add: mating_example_def)
  have "\<exists>s'. update (default_params\<lparr>eggToAdultTicks := 1\<rparr>) mating_example = Inr s' \<and>
          length (ants s') = 3 \<and> age (ants s' ! 2) = 1 \<and> stage (ants s' ! 2) = Adult \<and>
          health (ants s' ! 2) = 100"
    by (simp add: eval_defs)
  then have b: "\<not> isl (update (default_params\<lparr>eggToAdultTicks := 1\<rparr>) mating_example) \<and>
     length (ants (projr (update (default_params\<lparr>eggToAdultTicks := 1\<rparr>) mating_example))) = 3 \<and>
     age (ants (projr (update (default_params\<lparr>eggToAdultTicks := 1\<rparr>) mating_example)) ! 2) = 1 \<and>
     stage (ants (projr (update (default_params\<lparr>eggToAdultTicks := 1\<rparr>) mating_example)) ! 2) = Adult \<and>
     health (ants (projr (update (default_params\<lparr>eggToAdultTicks := 1\<rparr>) mating_example)) ! 2) = 100"
    by auto
  from a b show ?thesis by blast
qed

section \<open>Two adults that mate\<close>

lemma mutateRow_returns: "\<exists>l' s'. mutateRow g l s = (l', s')"
  by simp

lemma mutateLayers_returns:
  "\<exists>ls' s'. mutateLayers g (map Some ls) s = Inr (ls', s')"
proof (induction ls arbitrary: s)
  case Nil
  then show ?case by simp
next
  case (Cons l ls)
  obtain l' s1 where r: "mutateRow g l s = (l', s1)" by (cases "mutateRow g l s")
  from Cons.IH[of s1] obtain ls' s2 where "mutateLayers g (map Some ls) s1 = Inr (ls', s2)"
    by blast
  with r show ?case by simp
qed

lemma crossover_returns:
  assumes "map length (weights na) = map length (weights nb)"
    and "map length (biases na) = map length (biases nb)"
    and "length (biases na) = length (weights na)"
  shows "\<exists>nn s'. crossover p na nb s = Inr (nn, s')"
proof -
  define n where "n = length (weights na)"
  from assms(1) have lw: "length (weights nb) = n" unfolding n_def by (metis length_map)
  from assms(2,3) have lb: "length (biases na) = n" "length (biases nb) = n"
    unfolding n_def by (metis length_map)+
  define selw where "selw = map (\<lambda>i. if even i then weights na ! i else weights nb ! i) [0..<n]"
  define selb where "selb = map (\<lambda>i. if even i then biases na ! i else biases nb ! i) [0..<n]"
  have cw: "crossLayers (weights na) (weights nb) n = map Some selw"
    unfolding selw_def by (rule crossLayers_Some) (simp_all add: n_def lw)
  have cb: "crossLayers (biases na) (biases nb) n = map Some selb"
    unfolding selb_def by (rule crossLayers_Some) (simp_all add: lb)
  from mutateLayers_returns[of "genomeNoise p" selw s] obtain w s1 where
    w: "mutateLayers (genomeNoise p) (map Some selw) s = Inr (w, s1)" by blast
  from mutateLayers_returns[of "genomeNoise p" selb s1] obtain b s2 where
    b: "mutateLayers (genomeNoise p) (map Some selb) s1 = Inr (b, s2)" by blast
  from w b cw cb show ?thesis by (simp add: crossover_def n_def[symmetric])
qed

lemma set_action:
  "x\<lparr>nextAction := None\<rparr> = y\<lparr>nextAction := None\<rparr> \<Longrightarrow> nextAction x = v \<Longrightarrow> x = y\<lparr>nextAction := v\<rparr>"
  by (cases x, cases y) simp

lemma findPartner_pair:
  assumes "ants s = [a, b]" and "(pos_x b, pos_y b) \<in> set (neighbors a)"
    and "nextAction b = Some Mate" and "stage b = Adult"
  shows "findPartner {} s (neighbors a) = Some 1"
proof -
  from assms(2) consider "pos_x b = pos_x a \<and> pos_y b = pos_y a - 1"
    | "pos_x b = pos_x a \<and> pos_y b = pos_y a + 1"
    | "pos_x b = pos_x a - 1 \<and> pos_y b = pos_y a"
    | "pos_x b = pos_x a + 1 \<and> pos_y b = pos_y a"
    by (auto simp: neighbors_def)
  then show ?thesis
    using assms(1,3,4) by cases (simp_all add: neighbors_def getAntAt_def)
qed

lemma ageStep_young_adult:
  assumes "i < length (ants s)" and "stage (ants s ! i) = Adult"
    and "0 \<le> rnd s (rpos s)" and "real (age (ants s ! i)) + 1 < antLifespan p - 1 / 40"
  shows "ageStep p i s =
           s\<lparr>ants := (ants s)[i := (ants s ! i)\<lparr>age := age (ants s ! i) + 1,
                 stageAge := stageAge (ants s ! i) + 1, health := health (ants s ! i) - 1\<rparr>],
             rpos := rpos s + 1\<rparr>"
proof -
  from assms(3) have "- (1 / 40) \<le> (rnd s (rpos s) - 1 / 2) * (5 / 100)" by simp
  with assms(4) have "\<not> antLifespan p + (rnd s (rpos s) - 1 / 2) * (5 / 100) \<le> real (age (ants s ! i)) + 1"
    by linarith
  then have "\<not> antLifespan p + (rnd s (rpos s) - 1 / 2) * (5 / 100) \<le> real (age (ants s ! i) + 1)"
    by simp
  with assms(1,2) show ?thesis
    by (simp add: ageStep_def Let_def setAnt_def random_def)
qed

lemma ageStep_young_egg:
  assumes "i < length (ants s)" and "stage (ants s ! i) = Egg" and "stageAge (ants s ! i) = 0"
    and "1 < eggToAdultTicks p"
  shows "ageStep p i s =
           s\<lparr>ants := (ants s)[i := (ants s ! i)\<lparr>age := age (ants s ! i) + 1,
                 stageAge := 1, health := health (ants s ! i) - 1\<rparr>]\<rparr>"
  using assms by (simp add: ageStep_def Let_def setAnt_def)

lemma phase2_step:
  "i < length (ants s) \<Longrightarrow> mateStep p i m s = Inr (m', s') \<Longrightarrow>
   phase2 p i m s = phase2 p (Suc i) m' s'"
  by (subst phase2.simps) simp

lemma phase2_end: "\<not> i < length (ants s) \<Longrightarrow> phase2 p i m s = Inr s"
  by (subst phase2.simps) simp

lemma phase3_step: "i < length (ants s) \<Longrightarrow> phase3 p i s = phase3 p (Suc i) (actStep p i s)"
  by (subst phase3.simps) simp

lemma phase3_end: "\<not> i < length (ants s) \<Longrightarrow> phase3 p i s = s"
  by (subst phase3.simps) simp

text \<open>
  C6 (as the code has it). The array holds exactly two adults, the second on one of the four
  cells next to the first (\<open>neighbors\<close>), their networks have identical layer shapes, both
  have \<open>nextAction = mate\<close> after phase 1 and the population is below \<open>maxAnts\<close>. If
  moreover both parents outlive the tick (health above 1, age below the jittered lifespan)
  and \<open>eggToAdultTicks > 1\<close>, then the tick returns with three ants: each parent has only
  aged by one tick and paid one point of health (it has not moved, so it executed no
  action), and the third ant is one egg on the cell of the first parent, of age 1 and
  health 49.
\<close>

theorem mating_pair_scenario:
  assumes pair: "ants s = [a, b]"
    and adults: "stage a = Adult" "stage b = Adult"
    and adjacent: "(pos_x b, pos_y b) \<in> set (neighbors a)"
    and decided: "phase1 p 0 s = Inr s1" "map nextAction (ants s1) = [Some Mate, Some Mate]"
    and cap: "2 < maxAnts p"
    and shapes: "map length (weights (neuralNetwork a)) = map length (weights (neuralNetwork b))"
      "map length (biases (neuralNetwork a)) = map length (biases (neuralNetwork b))"
      "length (biases (neuralNetwork a)) = length (weights (neuralNetwork a))"
    and healthy: "1 < health a" "1 < health b"
    and young: "real (age a) + 1 < antLifespan p - 1 / 40" "real (age b) + 1 < antLifespan p - 1 / 40"
    and draws: "\<forall>n. 0 \<le> rnd s n"
    and hatch: "1 < eggToAdultTicks p"
  shows "\<exists>s'. update p s = Inr s' \<and> length (ants s') = 3 \<and>
           ants s' ! 0 = a\<lparr>age := age a + 1, stageAge := stageAge a + 1, health := health a - 1,
                            nextAction := Some Mate\<rparr> \<and>
           ants s' ! 1 = b\<lparr>age := age b + 1, stageAge := stageAge b + 1, health := health b - 1,
                            nextAction := Some Mate\<rparr> \<and>
           stage (ants s' ! 2) = Egg \<and> pos_x (ants s' ! 2) = pos_x a \<and> pos_y (ants s' ! 2) = pos_y a \<and>
           age (ants s' ! 2) = 1 \<and> health (ants s' ! 2) = 49"
proof -
  define a1 where "a1 = a\<lparr>nextAction := Some Mate\<rparr>"
  define b1 where "b1 = b\<lparr>nextAction := Some Mate\<rparr>"
  from phase1_frame[OF decided(1)] have f: "rnd s1 = rnd s" "length (ants s1) = 2"
    "\<And>j. (ants s1 ! j)\<lparr>nextAction := None\<rparr> = (ants s ! j)\<lparr>nextAction := None\<rparr>"
    by (simp_all add: pair)
  from decided(2) f(2) have na: "nextAction (ants s1 ! 0) = Some Mate" "nextAction (ants s1 ! 1) = Some Mate"
    by (metis nth_map nth_Cons_0 zero_less_numeral,
        metis nth_map nth_Cons_0 nth_Cons_Suc One_nat_def one_less_numeral_iff semiring_norm(76))
  have e0: "ants s1 ! 0 = a1" using set_action[OF f(3)[of 0] na(1)] by (simp add: pair a1_def)
  have e1: "ants s1 ! 1 = b1" using set_action[OF f(3)[of 1] na(2)] by (simp add: pair b1_def)
  have s1_ants: "ants s1 = [a1, b1]"
  proof (rule nth_equalityI)
    show "length (ants s1) = length [a1, b1]" by (simp add: f(2))
  next
    fix i assume "i < length (ants s1)"
    with f(2) have "i = 0 \<or> i = 1" by auto
    with e0 e1 show "ants s1 ! i = [a1, b1] ! i" by auto
  qed
  \<comment> \<open>phase 2: the first ant finds the second, the egg is pushed\<close>
  have nb: "(pos_x b1, pos_y b1) \<in> set (neighbors a1)"
    using adjacent by (simp add: a1_def b1_def neighbors_def)
  have fp: "findPartner {} s1 (neighbors a1) = Some 1"
    by (rule findPartner_pair[OF s1_ants nb]) (simp_all add: b1_def adults)
  from crossover_returns[OF shapes, of p s1] obtain nn sc where
    c: "crossover p (neuralNetwork a) (neuralNetwork b) s1 = Inr (nn, sc)" by blast
  from crossover_ants[OF c] crossover_rnd[OF c] have sc: "ants sc = [a1, b1]" "rnd sc = rnd s"
    by (simp_all add: s1_ants f(1))
  define egg where "egg = \<lparr>pos_x = pos_x a, pos_y = pos_y a, age = 0, health = 50, stage = Egg,
     stageAge = 0, neuralNetwork = nn, nextAction = None\<rparr>"
  define s2 where "s2 = sc\<lparr>ants := [a1, b1, egg]\<rparr>"
  have m0: "mateStep p 0 {} s1 = Inr ({1, 0}, s2)"
    using fp c cap
    by (simp add: mateStep_def Let_def s1_ants a1_def b1_def adults newAnt_def s2_def egg_def sc)
  have m1: "mateStep p (Suc 0) {1, 0} s2 = Inr ({1, 0}, s2)"
    by (simp add: mateStep_def Let_def s2_def)
  have m2: "mateStep p (Suc (Suc 0)) {1, 0} s2 = Inr ({1, 0}, s2)"
    by (simp add: mateStep_def Let_def s2_def egg_def)
  have l2: "length (ants s2) = 3" by (simp add: s2_def)
  have p2: "phase2 p 0 {} s1 = Inr s2"
  proof -
    have "phase2 p 0 {} s1 = phase2 p (Suc 0) {1, 0} s2"
      by (rule phase2_step[OF _ m0]) (simp add: f(2))
    also have "\<dots> = phase2 p (Suc (Suc 0)) {1, 0} s2"
      by (rule phase2_step[OF _ m1]) (simp add: l2)
    also have "\<dots> = phase2 p (Suc (Suc (Suc 0))) {1, 0} s2"
      by (rule phase2_step[OF _ m2]) (simp add: l2)
    also have "\<dots> = Inr s2"
      by (rule phase2_end) (simp add: l2)
    finally show ?thesis .
  qed
  \<comment> \<open>phase 3: no parent acts; the three ants age\<close>
  define a2 where "a2 = a\<lparr>age := age a + 1, stageAge := stageAge a + 1, health := health a - 1,
                            nextAction := Some Mate\<rparr>"
  define b2 where "b2 = b\<lparr>age := age b + 1, stageAge := stageAge b + 1, health := health b - 1,
                            nextAction := Some Mate\<rparr>"
  define egg2 where "egg2 = egg\<lparr>age := 1, stageAge := 1, health := 49\<rparr>"
  define t1 where "t1 = sc\<lparr>ants := [a2, b1, egg], rpos := rpos sc + 1\<rparr>"
  define t2 where "t2 = sc\<lparr>ants := [a2, b2, egg], rpos := rpos sc + 2\<rparr>"
  define t3 where "t3 = sc\<lparr>ants := [a2, b2, egg2], rpos := rpos sc + 2\<rparr>"
  have r0: "\<And>u n. rnd u = rnd s \<Longrightarrow> 0 \<le> rnd u n" using draws by simp
  have as0: "actStep p 0 s2 = t1"
  proof -
    have "actStep p 0 s2 = ageStep p 0 s2"
      by (simp add: actStep_def s2_def a1_def)
    also have "\<dots> = t1"
      using young(1) r0[of s2 "rpos s2"]
      by (subst ageStep_young_adult)
         (simp_all add: s2_def sc a1_def adults t1_def a2_def)
    finally show ?thesis .
  qed
  have as1: "actStep p (Suc 0) t1 = t2"
  proof -
    have "actStep p (Suc 0) t1 = ageStep p (Suc 0) t1"
      by (simp add: actStep_def t1_def b1_def)
    also have "\<dots> = t2"
      using young(2) r0[of t1 "rpos t1"]
      by (subst ageStep_young_adult)
         (simp_all add: t1_def sc b1_def adults t2_def b2_def)
    finally show ?thesis .
  qed
  have as2: "actStep p (Suc (Suc 0)) t2 = t3"
  proof -
    have "actStep p (Suc (Suc 0)) t2 = ageStep p (Suc (Suc 0)) t2"
      by (simp add: actStep_def t2_def egg_def processAction_def)
    also have "\<dots> = t3"
      using hatch
      by (subst ageStep_young_egg)
         (simp_all add: t2_def egg_def t3_def egg2_def)
    finally show ?thesis .
  qed
  have lt: "length (ants t1) = 3" "length (ants t2) = 3" "length (ants t3) = 3"
    by (simp_all add: t1_def t2_def t3_def)
  have p3: "phase3 p 0 s2 = t3"
  proof -
    have "phase3 p 0 s2 = phase3 p (Suc 0) t1"
      using phase3_step[of 0 s2 p] by (simp add: l2 as0)
    also have "\<dots> = phase3 p (Suc (Suc 0)) t2"
      using phase3_step[of "Suc 0" t1 p] by (simp add: lt as1)
    also have "\<dots> = phase3 p (Suc (Suc (Suc 0))) t3"
      using phase3_step[of "Suc (Suc 0)" t2 p] by (simp add: lt as2)
    also have "\<dots> = t3"
      by (rule phase3_end) (simp add: lt)
    finally show ?thesis .
  qed
  have cl: "cull t3 = t3"
    using healthy by (simp add: cull_def t3_def a2_def b2_def egg2_def egg_def adults)
  have u: "update p s = Inr t3"
    by (simp add: update_def update_phases_def decided(1) p2 p3 cl)
  have "length (ants t3) = 3 \<and> ants t3 ! 0 = a2 \<and> ants t3 ! 1 = b2 \<and>
        stage (ants t3 ! 2) = Egg \<and> pos_x (ants t3 ! 2) = pos_x a \<and> pos_y (ants t3 ! 2) = pos_y a \<and>
        age (ants t3 ! 2) = 1 \<and> health (ants t3 ! 2) = 49"
    by (simp add: t3_def egg2_def egg_def)
  with u show ?thesis unfolding a2_def b2_def by blast
qed

theorem mating_pair_scenario_witness:
  "\<exists>s'. update default_params mating_example = Inr s' \<and> length (ants s') = 3 \<and>
     ants s' ! 0 = (example_ant 0 0 3 80 Adult)\<lparr>age := 4, stageAge := 4, health := 79,
                                               nextAction := Some Mate\<rparr> \<and>
     ants s' ! 1 = (example_ant 1 0 7 60 Adult)\<lparr>age := 8, stageAge := 8, health := 59,
                                               nextAction := Some Mate\<rparr> \<and>
     stage (ants s' ! 2) = Egg \<and> pos_x (ants s' ! 2) = 0 \<and> pos_y (ants s' ! 2) = 0 \<and>
     age (ants s' ! 2) = 1 \<and> health (ants s' ! 2) = 49"
proof -
  have "\<exists>s1. phase1 default_params 0 mating_example = Inr s1 \<and>
          map nextAction (ants s1) = [Some Mate, Some Mate]"
    by (simp add: eval_defs)
  then obtain s1 where d: "phase1 default_params 0 mating_example = Inr s1"
    "map nextAction (ants s1) = [Some Mate, Some Mate]" by (elim exE conjE)
  have h: "ants mating_example = [example_ant 0 0 3 80 Adult, example_ant 1 0 7 60 Adult]"
    "stage (example_ant 0 0 3 80 Adult) = Adult" "stage (example_ant 1 0 7 60 Adult) = Adult"
    "(pos_x (example_ant 1 0 7 60 Adult), pos_y (example_ant 1 0 7 60 Adult))
       \<in> set (neighbors (example_ant 0 0 3 80 Adult))"
    by (simp_all add: mating_example_def example_ant_def neighbors_def)
  have g: "2 < maxAnts default_params"
    "map length (weights (neuralNetwork (example_ant 0 0 3 80 Adult)))
       = map length (weights (neuralNetwork (example_ant 1 0 7 60 Adult)))"
    "map length (biases (neuralNetwork (example_ant 0 0 3 80 Adult)))
       = map length (biases (neuralNetwork (example_ant 1 0 7 60 Adult)))"
    "length (biases (neuralNetwork (example_ant 0 0 3 80 Adult)))
       = length (weights (neuralNetwork (example_ant 0 0 3 80 Adult)))"
    by (simp_all add: default_params_def example_ant_def zero_net_def)
  have k: "1 < health (example_ant 0 0 3 80 Adult)" "1 < health (example_ant 1 0 7 60 Adult)"
    "real (age (example_ant 0 0 3 80 Adult)) + 1 < antLifespan default_params - 1 / 40"
    "real (age (example_ant 1 0 7 60 Adult)) + 1 < antLifespan default_params - 1 / 40"
    "\<forall>n. 0 \<le> rnd mating_example n" "1 < eggToAdultTicks default_params"
    by (simp_all add: default_params_def example_ant_def mating_example_def constant_draws_def)
  from mating_pair_scenario[OF h d g k] show ?thesis
    by (simp add: example_ant_def)
qed

text \<open>
  When the first parent has a single point of health left, both adults still propose
  \<open>mate\<close> and the egg is pushed, but the upkeep brings the parent to 0 and the cull removes
  it: the population after the tick is 2, as before, not 3.
\<close>

theorem mating_pair_counterexample:
  "length (ants starving_pair_example) = 2 \<and>
   map stage (ants starving_pair_example) = [Adult, Adult] \<and>
   (pos_x (ants starving_pair_example ! 1), pos_y (ants starving_pair_example ! 1))
      \<in> set (neighbors (ants starving_pair_example ! 0)) \<and>
   real (length (ants starving_pair_example)) < maxAnts default_params \<and>
   \<not> isl (phase1 default_params 0 starving_pair_example) \<and>
   map nextAction (ants (projr (phase1 default_params 0 starving_pair_example)))
      = [Some Mate, Some Mate] \<and>
   \<not> isl (update default_params starving_pair_example) \<and>
   length (ants (projr (update default_params starving_pair_example))) = 2 \<and>
   map stage (ants (projr (update default_params starving_pair_example))) = [Adult, Egg]"
proof -
  have a: "length (ants starving_pair_example) = 2 \<and>
     map stage (ants starving_pair_example) = [Adult, Adult] \<and>
     (pos_x (ants starving_pair_example ! 1), pos_y (ants starving_pair_example ! 1))
        \<in> set (neighbors (ants starving_pair_example ! 0)) \<and>
     real (length (ants starving_pair_example)) < maxAnts default_params"
    by (simp add: starving_pair_example_def example_ant_def neighbors_def default_params_def)
  have "\<exists>s1. phase1 default_params 0 starving_pair_example = Inr s1 \<and>
          map nextAction (ants s1) = [Some Mate, Some Mate]"
    by (simp add: eval_defs)
  then have b: "\<not> isl (phase1 default_params 0 starving_pair_example) \<and>
     map nextAction (ants (projr (phase1 default_params 0 starving_pair_example)))
        = [Some Mate, Some Mate]"
    by auto
  have "\<exists>s'. update default_params starving_pair_example = Inr s' \<and>
          length (ants s') = 2 \<and> map stage (ants s') = [Adult, Egg]"
    by (simp add: eval_defs)
  then have c: "\<not> isl (update default_params starving_pair_example) \<and>
     length (ants (projr (update default_params starving_pair_example))) = 2 \<and>
     map stage (ants (projr (update default_params starving_pair_example))) = [Adult, Egg]"
    by auto
  from a b c show ?thesis by blast
qed

section \<open>The cull\<close>

text \<open>
  C5. After a tick has returned, every ant left in the array has \<open>health > 0\<close> and a stage
  other than \<open>old\<close>.
\<close>

theorem update_survivors:
  "update p s = Inr s' \<Longrightarrow> \<forall>a \<in> set (ants s'). 0 < health a \<and> stage a \<noteq> Old"
  by (auto simp: update_def cull_def split: sum.splits)

theorem update_survivors_witness:
  "\<exists>s'. update default_params cull_example = Inr s' \<and> length (ants s') = 1 \<and>
        list_all (\<lambda>a. 0 < health a \<and> stage a \<noteq> Old) (ants s')"
proof -
  have "\<exists>s'. update default_params cull_example = Inr s' \<and> length (ants s') = 1"
    by (simp add: cull_example_def eval_defs)
  then obtain s' where u: "update default_params cull_example = Inr s'" "length (ants s') = 1"
    by blast
  from update_survivors[OF u(1)] have "list_all (\<lambda>a. 0 < health a \<and> stage a \<noteq> Old) (ants s')"
    by (simp add: list_all_iff)
  with u show ?thesis by blast
qed

end
